theory Spec2Isabelle
  imports Complex_Main "HOL-Library.Multiset"
begin

section \<open>Strings as the validator uses them\<close>

text \<open>
  JavaScript strings are modelled as \<open>string\<close> (lists of 8-bit characters), so the
  model covers ASCII text, which is what SMTP reply lines and Node error messages are.
  \<open>toLowerCase\<close> and \<open>toUpperCase\<close> fold the letters A-Z and a-z and leave every
  other character alone.
\<close>

definition toLowerChar :: "char \<Rightarrow> char" where
  "toLowerChar c =
     (let n = (of_char c :: nat) in if 65 \<le> n \<and> n \<le> 90 then char_of (n + 32) else c)"

definition toUpperChar :: "char \<Rightarrow> char" where
  "toUpperChar c =
     (let n = (of_char c :: nat) in if 97 \<le> n \<and> n \<le> 122 then char_of (n - 32) else c)"

definition toLowerCase :: "string \<Rightarrow> string" where
  "toLowerCase s = map toLowerChar s"

definition toUpperCase :: "string \<Rightarrow> string" where
  "toUpperCase s = map toUpperChar s"

text \<open>\<open>s.startsWith(p)\<close> and \<open>s.includes(p)\<close>.\<close>

fun startsWith :: "string \<Rightarrow> string \<Rightarrow> bool" where
  "startsWith s [] = True"
| "startsWith [] (p # ps) = False"
| "startsWith (c # cs) (p # ps) = (c = p \<and> startsWith cs ps)"

fun includesStr :: "string \<Rightarrow> string \<Rightarrow> bool" where
  "includesStr [] p = (p = [])"
| "includesStr (c # cs) p = (startsWith (c # cs) p \<or> includesStr cs p)"

text \<open>Decimal digits, for the regular expression \<open>/^(\d{3})/\<close> and \<open>parseInt\<close>.\<close>

definition isDigit :: "char \<Rightarrow> bool" where
  "isDigit c = (let n = (of_char c :: nat) in 48 \<le> n \<and> n \<le> 57)"

definition digitVal :: "char \<Rightarrow> int" where
  "digitVal c = int (of_char c :: nat) - 48"

section \<open>Result types (types/email.ts)\<close>

datatype SmtpStatus =
  NotChecked | Valid | Invalid | Unknown | CatchAll | TemporarilyUnavailable

datatype ValidationReasonCode =
  no_mx_records
| smtp_valid
| smtp_invalid
| smtp_catch_all
| smtp_temporarily_unavailable
| smtp_connection_failed
| smtp_timeout
| smtp_greylisted
| smtp_rate_limited
| smtp_soft_fails_exceeded
| smtp_hard_block
| smtp_conn_refused
| smtp_network_unreachable
| smtp_conn_reset
| smtp_banner_timeout
| smtp_ehlo_timeout
| smtp_mail_timeout
| smtp_rcpt_timeout
| smtp_tls_required
| smtp_tls_handshake_failed
| smtp_mx_all_failed

record SmtpValidationResult =
  smtpStatus :: SmtpStatus
  reasonCodes :: "ValidationReasonCode list"
  rawSmtpResponse :: "string option"

text \<open>
  A thrown JavaScript error: its \<open>message\<close> and, for socket errors, the system
  error name in \<open>code\<close> (\<open>ECONNREFUSED\<close>, ...).
\<close>

record JsError =
  message :: string
  errCode :: "string option"

section \<open>Interpreting reply codes (smtpValidator.ts)\<close>

text \<open>\<open>extractSmtpCode\<close>: the number written by the first three characters when all
  three are digits, and 0 otherwise.\<close>

fun extractSmtpCode :: "string \<Rightarrow> int" where
  "extractSmtpCode (a # b # c # rest) =
     (if isDigit a \<and> isDigit b \<and> isDigit c
      then 100 * digitVal a + 10 * digitVal b + digitVal c else 0)"
| "extractSmtpCode s = 0"

definition catchAllLanguage :: "string \<Rightarrow> bool" where
  "catchAllLanguage lowerMessage =
     (includesStr lowerMessage ''catch-all'' \<or> includesStr lowerMessage ''accept all''
      \<or> includesStr lowerMessage ''accepts all'')"

definition greylistIndicator :: "int \<Rightarrow> string \<Rightarrow> bool" where
  "greylistIndicator code lowerMessage =
     (code = 450 \<or> code = 451 \<or> code = 452 \<or> includesStr lowerMessage ''greylist''
      \<or> includesStr lowerMessage ''try again'' \<or> includesStr lowerMessage ''retry'')"

definition rateLimitIndicator :: "int \<Rightarrow> string \<Rightarrow> bool" where
  "rateLimitIndicator code lowerMessage =
     (code = 421 \<or> code = 452 \<or> includesStr lowerMessage ''rate''
      \<or> includesStr lowerMessage ''throttle'' \<or> includesStr lowerMessage ''too many'')"

definition interpretSmtpCode :: "int \<Rightarrow> string \<Rightarrow> string \<Rightarrow> SmtpValidationResult" where
  "interpretSmtpCode code msg rawResponse =
     (let lowerMessage = toLowerCase msg in
      if 200 \<le> code \<and> code < 300 then
        (if catchAllLanguage lowerMessage
         then \<lparr>smtpStatus = CatchAll, reasonCodes = [smtp_catch_all],
               rawSmtpResponse = Some rawResponse\<rparr>
         else \<lparr>smtpStatus = Valid, reasonCodes = [smtp_valid],
               rawSmtpResponse = Some rawResponse\<rparr>)
      else if 400 \<le> code \<and> code < 500 then
        \<lparr>smtpStatus = TemporarilyUnavailable,
         reasonCodes = [smtp_temporarily_unavailable]
           @ (if greylistIndicator code lowerMessage then [smtp_greylisted] else [])
           @ (if rateLimitIndicator code lowerMessage then [smtp_rate_limited] else []),
         rawSmtpResponse = Some rawResponse\<rparr>
      else if 500 \<le> code \<and> code < 600 then
        \<lparr>smtpStatus = Invalid, reasonCodes = [smtp_invalid],
         rawSmtpResponse = Some rawResponse\<rparr>
      else
        \<lparr>smtpStatus = Unknown, reasonCodes = [smtp_connection_failed],
         rawSmtpResponse = Some rawResponse\<rparr>)"

text \<open>\<open>isHardBlockError\<close>: some block indicator occurs in the lower-cased message.\<close>

definition blockIndicators :: "string list" where
  "blockIndicators = [''blacklist'', ''blocked'', ''banned'', ''policy'', ''abuse'',
     ''spam'', ''reputation'', ''rbl'', ''dnsbl'']"

definition isHardBlockError :: "JsError \<Rightarrow> bool" where
  "isHardBlockError err =
     list_ex (\<lambda>indicator. includesStr (toLowerCase (message err)) indicator) blockIndicators"

text \<open>\<open>message || 'fallback'\<close>: the fallback replaces the empty string.\<close>

definition orElse :: "string \<Rightarrow> string \<Rightarrow> string" where
  "orElse s fallback = (if s = [] then fallback else s)"

text \<open>The fault classes \<open>mapErrorToResult\<close> tests for, in the order it tests them.\<close>

definition isConnRefused :: "JsError \<Rightarrow> bool" where
  "isConnRefused err =
     (includesStr (message err) ''ECONNREFUSED'' \<or> errCode err = Some ''ECONNREFUSED'')"

definition isNetUnreachable :: "JsError \<Rightarrow> bool" where
  "isNetUnreachable err =
     (includesStr (message err) ''ENETUNREACH'' \<or> errCode err = Some ''ENETUNREACH''
      \<or> includesStr (message err) ''EHOSTUNREACH'' \<or> errCode err = Some ''EHOSTUNREACH'')"

definition isConnReset :: "JsError \<Rightarrow> bool" where
  "isConnReset err =
     (includesStr (message err) ''ECONNRESET'' \<or> errCode err = Some ''ECONNRESET'')"

definition isGenericTimeout :: "JsError \<Rightarrow> bool" where
  "isGenericTimeout err =
     (includesStr (message err) ''timeout'' \<or> includesStr (message err) ''ETIMEDOUT''
      \<or> errCode err = Some ''ETIMEDOUT'')"

definition mapErrorToResult :: "JsError \<Rightarrow> SmtpValidationResult" where
  "mapErrorToResult err =
     (let msg = message err; code = extractSmtpCode msg in
      if code > 0 then interpretSmtpCode code msg msg
      else if includesStr msg ''banner_timeout'' then
        \<lparr>smtpStatus = Unknown, reasonCodes = [smtp_banner_timeout, smtp_timeout],
         rawSmtpResponse = Some ''Timeout waiting for SMTP banner''\<rparr>
      else if includesStr msg ''ehlo_timeout'' then
        \<lparr>smtpStatus = Unknown, reasonCodes = [smtp_ehlo_timeout, smtp_timeout],
         rawSmtpResponse = Some ''Timeout during EHLO handshake''\<rparr>
      else if includesStr msg ''mail_timeout'' then
        \<lparr>smtpStatus = Unknown, reasonCodes = [smtp_mail_timeout, smtp_timeout],
         rawSmtpResponse = Some ''Timeout during MAIL FROM''\<rparr>
      else if includesStr msg ''rcpt_timeout'' then
        \<lparr>smtpStatus = Unknown, reasonCodes = [smtp_rcpt_timeout, smtp_timeout],
         rawSmtpResponse = Some ''Timeout during RCPT TO''\<rparr>
      else if isConnRefused err then
        \<lparr>smtpStatus = Unknown, reasonCodes = [smtp_conn_refused, smtp_connection_failed],
         rawSmtpResponse = Some ''Connection refused (port 25 closed/filtered)''\<rparr>
      else if isNetUnreachable err then
        \<lparr>smtpStatus = Unknown,
         reasonCodes = [smtp_network_unreachable, smtp_connection_failed],
         rawSmtpResponse = Some ''Network or host unreachable (routing issue)''\<rparr>
      else if isConnReset err then
        \<lparr>smtpStatus = Unknown, reasonCodes = [smtp_conn_reset, smtp_connection_failed],
         rawSmtpResponse = Some ''Connection reset by peer (possibly IP-blocked)''\<rparr>
      else if isGenericTimeout err then
        \<lparr>smtpStatus = Unknown, reasonCodes = [smtp_timeout],
         rawSmtpResponse = Some (orElse msg ''Operation timed out'')\<rparr>
      else
        \<lparr>smtpStatus = Unknown, reasonCodes = [smtp_connection_failed],
         rawSmtpResponse = Some (orElse msg ''Unknown SMTP error'')\<rparr>)"

section \<open>The in-memory throttle store (throttleState.ts)\<close>

text \<open>
  Timestamps are milliseconds as \<open>Date.now()\<close> returns them. The concurrency counters
  and the adaptive ceiling are integers, so that their bounds are theorems and not
  consequences of the type; the failure and success counters only ever count up from 0 or
  decay with \<open>Math.max(0, n - 1)\<close>, which is subtraction on \<open>nat\<close>.
\<close>

record MxState =
  host :: string
  concurrency :: int
  maxConcurrency :: int
  failures :: nat
  successCount :: nat
  penaltyUntil :: "int option"
  lastAttemptAt :: "int option"
  totalAttempts :: nat
  totalSuccesses :: nat

record ThrottleConfig =
  maxGlobalConcurrency :: int
  maxMxConcurrency :: int
  perDomainMinIntervalMs :: int

text \<open>
  The map \<open>this.mxStates\<close> holds references to \<open>MxState\<close> objects, and the methods change
  the objects in place. A caller of \<open>acquireSlot\<close> keeps the reference it got on entry
  across its sleeps: it sees what other callers do to the object meanwhile, and after a
  \<open>clearAll\<close> it is left with an object that the map no longer holds. So the store is
  the objects by reference, the number of references handed out so far, the references
  the map holds, and the global counter. \<open>mxStates st h\<close> is the object that
  \<open>this.mxStates.get(h)\<close> denotes.
\<close>

record InMemoryThrottleStore =
  objects :: "nat \<Rightarrow> MxState"
  allocated :: nat
  references :: "string \<rightharpoonup> nat"
  globalConcurrency :: int

definition mxStates :: "InMemoryThrottleStore \<Rightarrow> string \<rightharpoonup> MxState" where
  "mxStates st h = map_option (objects st) (references st h)"

text \<open>The object literal of \<open>getOrCreateState\<close>.\<close>

definition newState :: "string \<Rightarrow> int \<Rightarrow> MxState" where
  "newState normalizedHost maxMx =
     \<lparr>host = normalizedHost, concurrency = 0, maxConcurrency = min maxMx 2,
      failures = 0, successCount = 0, penaltyUntil = None,
      lastAttemptAt = None, totalAttempts = 0, totalSuccesses = 0\<rparr>"

text \<open>The store of a new \<open>InMemoryThrottleStore\<close>; no reference has been handed out, so
  what \<open>objects\<close> holds is never read.\<close>

definition emptyStore :: InMemoryThrottleStore where
  "emptyStore =
     \<lparr>objects = (\<lambda>ref. newState [] 0), allocated = 0, references = Map.empty,
      globalConcurrency = 0\<rparr>"

text \<open>\<open>getOrCreateState\<close> returns the reference the map holds for the host, after
  creating the object if the map had none.\<close>

definition getOrCreateState ::
  "string \<Rightarrow> int \<Rightarrow> InMemoryThrottleStore \<Rightarrow> nat \<times> InMemoryThrottleStore" where
  "getOrCreateState mxHost maxMx st =
     (let normalizedHost = toLowerCase mxHost in
      case references st normalizedHost of
        Some ref \<Rightarrow> (ref, st)
      | None \<Rightarrow>
          (let ref = allocated st
           in (ref, st\<lparr>objects := (objects st)(ref := newState normalizedHost maxMx),
                       allocated := Suc ref,
                       references := (references st)(normalizedHost \<mapsto> ref)\<rparr>)))"

text \<open>
  One pass through the body of the \<open>while (true)\<close> loop of \<open>acquireSlot\<close>. Nothing is
  awaited between the four checks and the increments, so a pass is one uninterrupted
  step: it times out, asks for a sleep, or acquires. An optional timestamp is tested for
  truthiness first, as \<open>state.penaltyUntil && now < state.penaltyUntil\<close> does: a
  missing value and 0 both skip the check.
\<close>

datatype AcquireStep = TimedOut | Sleep int | Acquire

definition maxWaitTime :: int where
  "maxWaitTime = 60000"

definition penaltyActive :: "MxState \<Rightarrow> int \<Rightarrow> bool" where
  "penaltyActive state now =
     (case penaltyUntil state of None \<Rightarrow> False | Some p \<Rightarrow> p \<noteq> 0 \<and> now < p)"

definition intervalNotMet :: "MxState \<Rightarrow> int \<Rightarrow> int \<Rightarrow> bool" where
  "intervalNotMet state minInterval now =
     (case lastAttemptAt state of None \<Rightarrow> False
      | Some l \<Rightarrow> l \<noteq> 0 \<and> now - l < minInterval)"

definition acquireCheck ::
  "ThrottleConfig \<Rightarrow> int \<Rightarrow> int \<Rightarrow> MxState \<Rightarrow> int \<Rightarrow> AcquireStep" where
  "acquireCheck cfg startTime now state global =
     (if now - startTime > maxWaitTime then TimedOut
      else if penaltyActive state now
        then Sleep (min 1000 (the (penaltyUntil state) - now))
      else if intervalNotMet state (perDomainMinIntervalMs cfg) now
        then Sleep (perDomainMinIntervalMs cfg - (now - the (lastAttemptAt state)))
      else if global \<ge> maxGlobalConcurrency cfg then Sleep 500
      else if concurrency state \<ge> maxConcurrency state then Sleep 500
      else Acquire)"

text \<open>The four assignments under \<open>// Acquire slot\<close>, on the object behind \<open>ref\<close>.\<close>

definition grant :: "nat \<Rightarrow> int \<Rightarrow> InMemoryThrottleStore \<Rightarrow> InMemoryThrottleStore" where
  "grant ref now st =
     st\<lparr>objects := (objects st)(ref :=
           (objects st ref)\<lparr>concurrency := concurrency (objects st ref) + 1,
                             totalAttempts := totalAttempts (objects st ref) + 1,
                             lastAttemptAt := Some now\<rparr>),
        globalConcurrency := globalConcurrency st + 1\<rparr>"

definition releaseSlot :: "string \<Rightarrow> InMemoryThrottleStore \<Rightarrow> InMemoryThrottleStore" where
  "releaseSlot mxHost st =
     (case references st (toLowerCase mxHost) of
        None \<Rightarrow> st
      | Some ref \<Rightarrow>
          st\<lparr>objects := (objects st)(ref :=
                (objects st ref)\<lparr>concurrency := max 0 (concurrency (objects st ref) - 1)\<rparr>),
             globalConcurrency := max 0 (globalConcurrency st - 1)\<rparr>)"

definition hardCeiling :: int where
  "hardCeiling = 5"

definition successUpdate :: "MxState \<Rightarrow> MxState" where
  "successUpdate state =
     (let s1 = state\<lparr>successCount := successCount state + 1,
                      totalSuccesses := totalSuccesses state + 1,
                      failures := failures state - 1\<rparr>
      in if successCount s1 > 10 \<and> maxConcurrency s1 < hardCeiling
         then s1\<lparr>maxConcurrency := min (maxConcurrency s1 + 1) hardCeiling\<rparr> else s1)"

definition recordSuccess :: "string \<Rightarrow> InMemoryThrottleStore \<Rightarrow> InMemoryThrottleStore" where
  "recordSuccess mxHost st =
     (case references st (toLowerCase mxHost) of
        None \<Rightarrow> st
      | Some ref \<Rightarrow> st\<lparr>objects := (objects st)(ref := successUpdate (objects st ref))\<rparr>)"

text \<open>\<open>recordFailure\<close>; \<open>now\<close> is what \<open>Date.now()\<close> returns when the penalty is set.\<close>

definition penaltyMs :: "nat \<Rightarrow> int" where
  "penaltyMs n = min 300000 (5000 * 2 ^ n)"

definition failureUpdate :: "bool \<Rightarrow> int \<Rightarrow> MxState \<Rightarrow> MxState" where
  "failureUpdate shouldPenalize now state =
     (let s1 = state\<lparr>failures := failures state + 1, successCount := 0\<rparr>;
          s2 = (if shouldPenalize
                then s1\<lparr>penaltyUntil := Some (now + penaltyMs (failures s1))\<rparr> else s1)
      in if failures s2 > 3 \<and> maxConcurrency s2 > 1
         then s2\<lparr>maxConcurrency := max 1 (maxConcurrency s2 - 1)\<rparr> else s2)"

definition recordFailure ::
  "string \<Rightarrow> bool \<Rightarrow> int \<Rightarrow> InMemoryThrottleStore \<Rightarrow> InMemoryThrottleStore" where
  "recordFailure mxHost shouldPenalize now st =
     (case references st (toLowerCase mxHost) of
        None \<Rightarrow> st
      | Some ref \<Rightarrow>
          st\<lparr>objects := (objects st)(ref :=
                failureUpdate shouldPenalize now (objects st ref))\<rparr>)"

text \<open>\<open>getState\<close> and \<open>clearAll\<close>. Clearing the map does not touch the objects.\<close>

definition getState :: "string \<Rightarrow> InMemoryThrottleStore \<Rightarrow> MxState \<times> InMemoryThrottleStore" where
  "getState mxHost st =
     (let (ref, st1) = getOrCreateState mxHost 2 st in (objects st1 ref, st1))"

definition clearAll :: "InMemoryThrottleStore \<Rightarrow> InMemoryThrottleStore" where
  "clearAll st = st\<lparr>references := Map.empty, globalConcurrency := 0\<rparr>"

text \<open>
  What other callers do to the store while one caller sleeps. JavaScript runs each of
  them to its next \<open>await\<close> without interruption, so their effect is a sequence of such
  stretches: the entry of another \<open>acquireSlot\<close> (\<open>getOrCreateState\<close> with its configured
  ceiling), one pass of the loop of another \<open>acquireSlot\<close> that holds the reference
  \<open>ref\<close>, and the synchronous methods.
\<close>

datatype ThrottleStep =
  StepCreate string int
| StepPass nat ThrottleConfig int int
| StepRelease string
| StepSuccess string
| StepFailure string bool int
| StepClearAll

fun applyStep :: "ThrottleStep \<Rightarrow> InMemoryThrottleStore \<Rightarrow> InMemoryThrottleStore" where
  "applyStep (StepCreate mxHost maxMx) st = snd (getOrCreateState mxHost maxMx st)"
| "applyStep (StepPass ref cfg startTime now) st =
     (case acquireCheck cfg startTime now (objects st ref) (globalConcurrency st) of
        Acquire \<Rightarrow> grant ref now st
      | TimedOut \<Rightarrow> st
      | Sleep ms \<Rightarrow> st)"
| "applyStep (StepRelease mxHost) st = releaseSlot mxHost st"
| "applyStep (StepSuccess mxHost) st = recordSuccess mxHost st"
| "applyStep (StepFailure mxHost shouldPenalize now) st =
     recordFailure mxHost shouldPenalize now st"
| "applyStep StepClearAll st = clearAll st"

fun runSteps :: "ThrottleStep list \<Rightarrow> InMemoryThrottleStore \<Rightarrow> InMemoryThrottleStore" where
  "runSteps [] st = st"
| "runSteps (s # steps) st = runSteps steps (applyStep s st)"

lemma acquireCheck_Sleep:
  "acquireCheck cfg startTime now state global = Sleep ms \<Longrightarrow>
   0 < ms \<and> now - startTime \<le> maxWaitTime"
  by (auto simp: acquireCheck_def penaltyActive_def intervalNotMet_def
      split: if_splits option.splits)

text \<open>
  The loop. Each pass reads the clock and then the object behind the caller's reference
  and the global counter as they are at that moment. \<open>sleep(ms)\<close> resumes the caller
  \<open>ms\<close> milliseconds later plus the lateness \<open>late k\<close> of the \<open>k\<close>-th timer; \<open>others\<close>
  lists, sleep by sleep, what the other callers do to the store meanwhile (nothing once
  the list is used up). The loop returns whether it acquired, the clock value at which it
  stopped, the sleeps it asked for, and the store as its last pass found it.
\<close>

function waitLoop ::
  "ThrottleConfig \<Rightarrow> int \<Rightarrow> (nat \<Rightarrow> nat) \<Rightarrow> nat \<Rightarrow> ThrottleStep list list \<Rightarrow> nat \<Rightarrow> int
   \<Rightarrow> int list \<Rightarrow> InMemoryThrottleStore \<Rightarrow> bool \<times> int \<times> int list \<times> InMemoryThrottleStore" where
  "waitLoop cfg startTime late ref others k now sleeps st =
     (case acquireCheck cfg startTime now (objects st ref) (globalConcurrency st) of
        TimedOut \<Rightarrow> (False, now, sleeps, st)
      | Sleep ms \<Rightarrow>
          waitLoop cfg startTime late ref (tl others) (Suc k) (now + ms + int (late k))
            (sleeps @ [ms]) (runSteps (case others of [] \<Rightarrow> [] | steps # later \<Rightarrow> steps) st)
      | Acquire \<Rightarrow> (True, now, sleeps, st))"
  by pat_completeness auto
termination
proof (relation "measure (\<lambda>(cfg, startTime, late, ref, others, k, now, sleeps, st).
                   nat (startTime + maxWaitTime + 1 - now))")
  show "wf (measure (\<lambda>(cfg, startTime, late, ref, others, k, now, sleeps, st).
                   nat (startTime + maxWaitTime + 1 - now)))"
    by simp
next
  fix cfg :: ThrottleConfig and startTime :: int and late :: "nat \<Rightarrow> nat" and ref :: nat
    and others :: "ThrottleStep list list" and k :: nat and now :: int
    and sleeps :: "int list" and st :: InMemoryThrottleStore and ms :: int
  assume "acquireCheck cfg startTime now (objects st ref) (globalConcurrency st) = Sleep ms"
  then have "0 < ms \<and> now - startTime \<le> maxWaitTime"
    by (rule acquireCheck_Sleep)
  then show "((cfg, startTime, late, ref, tl others, Suc k, now + ms + int (late k),
               sleeps @ [ms],
               runSteps (case others of [] \<Rightarrow> [] | steps # later \<Rightarrow> steps) st),
              (cfg, startTime, late, ref, others, k, now, sleeps, st))
             \<in> measure (\<lambda>(cfg, startTime, late, ref, others, k, now, sleeps, st).
                   nat (startTime + maxWaitTime + 1 - now))"
    by simp
qed

declare waitLoop.simps [simp del]

text \<open>
  \<open>acquireSlot\<close> itself. \<open>startTime\<close> is the value of \<open>Date.now()\<close> on entry; the first
  pass reads the clock in the same synchronous stretch, so it sees the same value. The
  result records the error thrown (if any), the clock value on return, the sleeps asked
  for, the reference the caller held, the store as the last pass found it (the moment of
  acquisition, when there is one) and the store left behind.
\<close>

record AcquireResult =
  thrown :: "JsError option"
  returnedAt :: int
  sleptFor :: "int list"
  heldRef :: nat
  storeBefore :: InMemoryThrottleStore
  storeAfter :: InMemoryThrottleStore

definition acquireSlot ::
  "string \<Rightarrow> ThrottleConfig \<Rightarrow> int \<Rightarrow> (nat \<Rightarrow> nat) \<Rightarrow> ThrottleStep list list
   \<Rightarrow> InMemoryThrottleStore \<Rightarrow> AcquireResult" where
  "acquireSlot mxHost cfg startTime late others st =
     (let (ref, st1) = getOrCreateState mxHost (maxMxConcurrency cfg) st;
          (ok, now, sleeps, st2) = waitLoop cfg startTime late ref others 0 startTime [] st1
      in if ok then
           \<lparr>thrown = None, returnedAt = now, sleptFor = sleeps, heldRef = ref,
            storeBefore = st2, storeAfter = grant ref now st2\<rparr>
         else
           \<lparr>thrown = Some \<lparr>message = ''Timeout waiting for slot to '' @ mxHost,
                                errCode = None\<rparr>,
            returnedAt = now, sleptFor = sleeps, heldRef = ref,
            storeBefore = st2, storeAfter = st2\<rparr>)"

text \<open>
  A call sequence on the store. Each call that reads the clock carries the clock value
  it reads; \<open>acquireSlot\<close> also carries the lateness of its timers and what the other
  callers do during its sleeps.
\<close>

datatype ThrottleOp =
  OpAcquire string ThrottleConfig int "nat \<Rightarrow> nat" "ThrottleStep list list"
| OpRelease string
| OpSuccess string
| OpFailure string bool int
| OpGetState string
| OpClearAll

fun applyOp :: "ThrottleOp \<Rightarrow> InMemoryThrottleStore \<Rightarrow> InMemoryThrottleStore" where
  "applyOp (OpAcquire mxHost cfg startTime late others) st =
     storeAfter (acquireSlot mxHost cfg startTime late others st)"
| "applyOp (OpRelease mxHost) st = releaseSlot mxHost st"
| "applyOp (OpSuccess mxHost) st = recordSuccess mxHost st"
| "applyOp (OpFailure mxHost shouldPenalize now) st = recordFailure mxHost shouldPenalize now st"
| "applyOp (OpGetState mxHost) st = snd (getState mxHost st)"
| "applyOp OpClearAll st = clearAll st"

fun runOps :: "ThrottleOp list \<Rightarrow> InMemoryThrottleStore \<Rightarrow> InMemoryThrottleStore" where
  "runOps [] st = st"
| "runOps (op # ops) st = runOps ops (applyOp op st)"

text \<open>The configured per-host ceiling of every \<open>acquireSlot\<close> call, the caller's and the
  other callers', is at least 1.\<close>

fun stepCeilingOk :: "ThrottleStep \<Rightarrow> bool" where
  "stepCeilingOk (StepCreate mxHost maxMx) = (1 \<le> maxMx)"
| "stepCeilingOk other = True"

fun ceilingOk :: "ThrottleOp \<Rightarrow> bool" where
  "ceilingOk (OpAcquire mxHost cfg startTime late others) =
     (1 \<le> maxMxConcurrency cfg \<and> list_all (list_all stepCeilingOk) others)"
| "ceilingOk other = True"

text \<open>The invariant of section 3 of the specification, on every object handed out.\<close>

definition hostInv :: "MxState \<Rightarrow> bool" where
  "hostInv s = (0 \<le> concurrency s \<and> 1 \<le> maxConcurrency s \<and> maxConcurrency s \<le> hardCeiling)"

definition storeInv :: "InMemoryThrottleStore \<Rightarrow> bool" where
  "storeInv st =
     (0 \<le> globalConcurrency st
      \<and> (\<forall>ref. ref < allocated st \<longrightarrow> hostInv (objects st ref))
      \<and> (\<forall>h ref. references st h = Some ref \<longrightarrow> ref < allocated st))"

text \<open>
  A store for the examples: one host, at its adaptive ceiling of 2 with two connections
  in flight, last tried at instant 1000; and a configuration.
\<close>

definition busyHost :: MxState where
  "busyHost =
     \<lparr>host = ''mx1.example.com'', concurrency = 2, maxConcurrency = 2, failures = 0,
      successCount = 0, penaltyUntil = None, lastAttemptAt = Some 1000,
      totalAttempts = 2, totalSuccesses = 0\<rparr>"

definition busyStore :: InMemoryThrottleStore where
  "busyStore =
     \<lparr>objects = (\<lambda>ref. busyHost), allocated = 1,
      references = [''mx1.example.com'' \<mapsto> 0], globalConcurrency = 2\<rparr>"

definition exampleThrottleConfig :: ThrottleConfig where
  "exampleThrottleConfig =
     \<lparr>maxGlobalConcurrency = 10, maxMxConcurrency = 2, perDomainMinIntervalMs = 1000\<rparr>"

text \<open>A store whose only host is idle, and a store that has just been cleared.\<close>

definition idleHost :: MxState where
  "idleHost = newState ''mx1.example.com'' 2"

definition idleStore :: InMemoryThrottleStore where
  "idleStore =
     \<lparr>objects = (\<lambda>ref. idleHost), allocated = 1,
      references = [''mx1.example.com'' \<mapsto> 0], globalConcurrency = 0\<rparr>"

section \<open>One SMTP attempt under the throttle (smtpValidator.ts)\<close>

record SmtpValidationConfig = ThrottleConfig +
  softRetryLimit :: nat
  initialRetryDelayMs :: real
  retryBackoffFactor :: real
  connectTimeoutMs :: int
  overallTimeoutMs :: int
  heloDomain :: string
  mailFrom :: string
  bannerTimeoutMs :: int
  ehloTimeoutMs :: int
  mailTimeoutMs :: int
  rcptTimeoutMs :: int
  requireTls :: bool
  allowTlsDowngrade :: bool
  maxMxAttempts :: nat
  randomizeSamePriority :: bool

text \<open>
  How \<open>Promise.race([performSmtpHandshake(...), timeoutPromise(...)])\<close> settles: with the
  handshake's result, or with an error (a rejection of the handshake or the overall
  timeout).
\<close>

datatype HandshakeOutcome = Resolved SmtpValidationResult | Rejected JsError

datatype ThrottleCall =
  AcquireSlotCall string
| RecordSuccessCall string
| RecordFailureCall string bool
| ReleaseSlotCall string

text \<open>
  \<open>validateSmtpSingle\<close> on the in-memory store. \<open>others\<close> is what the other callers do
  while \<open>acquireSlot\<close> sleeps, \<open>raced\<close> how the race settles, \<open>duration\<close> how long after
  the acquisition, and \<open>meanwhile\<close> what the other callers do to the store during the
  handshake. The result is what the function returns (\<open>Inl\<close> when it throws), the throttle
  calls it made in order, and the store it leaves. The slot is acquired before the \<open>try\<close>,
  so a timeout there propagates and neither the \<open>catch\<close> nor the \<open>finally\<close> block runs.
  After the race settles, \<open>recordSuccess\<close> or \<open>recordFailure\<close> and then \<open>releaseSlot\<close>
  run without an \<open>await\<close> between them.
\<close>

definition throttleConfigOf :: "SmtpValidationConfig \<Rightarrow> ThrottleConfig" where
  "throttleConfigOf cfg =
     \<lparr>maxGlobalConcurrency = maxGlobalConcurrency cfg,
      maxMxConcurrency = maxMxConcurrency cfg,
      perDomainMinIntervalMs = perDomainMinIntervalMs cfg\<rparr>"

record SingleRun =
  returned :: "JsError + SmtpValidationResult"
  throttleCalls :: "ThrottleCall list"
  storeAfterRun :: InMemoryThrottleStore

definition validateSmtpSingle ::
  "string \<Rightarrow> SmtpValidationConfig \<Rightarrow> int \<Rightarrow> (nat \<Rightarrow> nat) \<Rightarrow> ThrottleStep list list
   \<Rightarrow> HandshakeOutcome \<Rightarrow> nat \<Rightarrow> ThrottleStep list \<Rightarrow> InMemoryThrottleStore \<Rightarrow> SingleRun" where
  "validateSmtpSingle mxHost cfg startTime late others raced duration meanwhile st =
     (let a = acquireSlot mxHost (throttleConfigOf cfg) startTime late others st
      in case thrown a of
           Some e \<Rightarrow>
             \<lparr>returned = Inl e, throttleCalls = [AcquireSlotCall mxHost],
              storeAfterRun = storeAfter a\<rparr>
         | None \<Rightarrow>
             (let held = runSteps meanwhile (storeAfter a) in
              case raced of
                Resolved result \<Rightarrow>
                  \<lparr>returned = Inr result,
                   throttleCalls = [AcquireSlotCall mxHost, RecordSuccessCall mxHost,
                                    ReleaseSlotCall mxHost],
                   storeAfterRun = releaseSlot mxHost (recordSuccess mxHost held)\<rparr>
              | Rejected error \<Rightarrow>
                  (let isHardBlock = isHardBlockError error in
                   \<lparr>returned = Inr (mapErrorToResult error),
                    throttleCalls = [AcquireSlotCall mxHost,
                                     RecordFailureCall mxHost isHardBlock,
                                     ReleaseSlotCall mxHost],
                    storeAfterRun =
                      releaseSlot mxHost
                        (recordFailure mxHost isHardBlock (returnedAt a + int duration)
                           held)\<rparr>)))"

text \<open>An error of the handshake that names a block list.\<close>

definition blockedError :: JsError where
  "blockedError =
     \<lparr>message = ''MAIL FROM rejected: 554 5.7.1 Service unavailable; client host blocked using dnsbl'',
      errCode = None\<rparr>"

section \<open>Retrying one exchanger (smtpValidator.ts)\<close>

text \<open>
  The orchestration is modelled over the outcomes of its calls to \<open>validateSmtpSingle\<close>:
  \<open>Inr\<close> a result, \<open>Inl\<close> a thrown error. In \<open>validateSmtpWithRetry\<close> the call made
  when the loop counter is \<open>attempt\<close> has outcome \<open>single attempt\<close>; the counter goes up
  with every further call, so it is also the number of calls made before.
\<close>

type_synonym SingleOutcome = "JsError + SmtpValidationResult"

record RetryRun =
  retryResult :: SmtpValidationResult
  callsMade :: nat
  delays :: "real list"

definition retryDelay :: "SmtpValidationConfig \<Rightarrow> nat \<Rightarrow> real" where
  "retryDelay cfg attempt = initialRetryDelayMs cfg * retryBackoffFactor cfg ^ attempt"

definition definitive :: "SmtpStatus \<Rightarrow> bool" where
  "definitive s = (s = Valid \<or> s = Invalid \<or> s = CatchAll)"

text \<open>What follows the loop: the last result with one more reason code, or the default.\<close>

definition afterRetryLoop :: "SmtpValidationResult option \<Rightarrow> SmtpValidationResult" where
  "afterRetryLoop lastResult =
     (case lastResult of
        Some r \<Rightarrow> r\<lparr>reasonCodes := reasonCodes r @ [smtp_soft_fails_exceeded]\<rparr>
      | None \<Rightarrow> \<lparr>smtpStatus = Unknown, reasonCodes = [smtp_connection_failed],
                 rawSmtpResponse = None\<rparr>)"

function retryLoop ::
  "SmtpValidationConfig \<Rightarrow> (nat \<Rightarrow> SingleOutcome) \<Rightarrow> nat \<Rightarrow> SmtpValidationResult option
   \<Rightarrow> real list \<Rightarrow> RetryRun" where
  "retryLoop cfg single attempt lastResult slept =
     (if attempt \<le> softRetryLimit cfg then
        (case single attempt of
           Inr result \<Rightarrow>
             if definitive (smtpStatus result) then
               \<lparr>retryResult = result, callsMade = attempt + 1, delays = slept\<rparr>
             else if smtpStatus result = TemporarilyUnavailable
                     \<and> attempt < softRetryLimit cfg then
               retryLoop cfg single (attempt + 1) (Some result)
                 (slept @ [retryDelay cfg attempt])
             else
               \<lparr>retryResult = afterRetryLoop (Some result), callsMade = attempt + 1,
                delays = slept\<rparr>
         | Inl error \<Rightarrow>
             if attempt < softRetryLimit cfg then
               retryLoop cfg single (attempt + 1) lastResult
                 (slept @ [retryDelay cfg attempt])
             else
               \<lparr>retryResult =
                  \<lparr>smtpStatus = Unknown,
                   reasonCodes = [smtp_connection_failed, smtp_timeout],
                   rawSmtpResponse = Some (message error)\<rparr>,
                callsMade = attempt + 1, delays = slept\<rparr>)
      else
        \<lparr>retryResult = afterRetryLoop lastResult, callsMade = attempt, delays = slept\<rparr>)"
  by pat_completeness auto
termination
  by (relation "measure (\<lambda>(cfg, single, attempt, lastResult, slept).
                  softRetryLimit cfg - attempt)") auto

declare retryLoop.simps [simp del]

definition validateSmtpWithRetry ::
  "SmtpValidationConfig \<Rightarrow> (nat \<Rightarrow> SingleOutcome) \<Rightarrow> RetryRun" where
  "validateSmtpWithRetry cfg single = retryLoop cfg single 0 None []"

text \<open>The configuration that config/env.ts produces when no variable is set.\<close>

definition defaultSmtpConfig :: SmtpValidationConfig where
  "defaultSmtpConfig =
     \<lparr>maxGlobalConcurrency = 20, maxMxConcurrency = 2, perDomainMinIntervalMs = 2000,
      softRetryLimit = 1, initialRetryDelayMs = 2000, retryBackoffFactor = 2,
      connectTimeoutMs = 8000, overallTimeoutMs = 10000,
      heloDomain = ''mail.localtest.candlebrain.app'', mailFrom = ''verifier@candlebrain.app'',
      bannerTimeoutMs = 2000, ehloTimeoutMs = 2000, mailTimeoutMs = 2000,
      rcptTimeoutMs = 3000, requireTls = False, allowTlsDowngrade = True,
      maxMxAttempts = 2, randomizeSamePriority = True\<rparr>"

text \<open>
  For stating what the loop does: \<open>retriable\<close> holds of an outcome after which the loop
  may go round again, and \<open>surfaced\<close> relates the outcome of the last call, made at
  loop counter \<open>attempt\<close>, to what the function returns.
\<close>

definition retriable :: "SingleOutcome \<Rightarrow> bool" where
  "retriable outcome =
     (case outcome of Inl error \<Rightarrow> True
      | Inr result \<Rightarrow> smtpStatus result = TemporarilyUnavailable)"

definition surfaced :: "SmtpValidationConfig \<Rightarrow> nat \<Rightarrow> SingleOutcome \<Rightarrow> SmtpValidationResult \<Rightarrow> bool" where
  "surfaced cfg attempt outcome final =
     (case outcome of
        Inr result \<Rightarrow>
          if definitive (smtpStatus result) then final = result
          else final = result\<lparr>reasonCodes := reasonCodes result @ [smtp_soft_fails_exceeded]\<rparr>
               \<and> (smtpStatus result = TemporarilyUnavailable \<longrightarrow> attempt = softRetryLimit cfg)
      | Inl error \<Rightarrow>
          attempt = softRetryLimit cfg
          \<and> final = \<lparr>smtpStatus = Unknown, reasonCodes = [smtp_connection_failed, smtp_timeout],
                      rawSmtpResponse = Some (message error)\<rparr>)"


text \<open>Two environments: the slot times out once and then the server accepts; the server
  greylists every time.\<close>

definition slotTimeoutThenValid :: "nat \<Rightarrow> SingleOutcome" where
  "slotTimeoutThenValid k =
     (if k = 0
      then Inl \<lparr>message = ''Timeout waiting for slot to mx1.example.com'', errCode = None\<rparr>
      else Inr \<lparr>smtpStatus = Valid, reasonCodes = [smtp_valid],
                rawSmtpResponse = Some ''250 2.1.5 OK''\<rparr>)"

definition greylistedEveryTime :: "nat \<Rightarrow> SingleOutcome" where
  "greylistedEveryTime k =
     Inr \<lparr>smtpStatus = TemporarilyUnavailable,
          reasonCodes = [smtp_temporarily_unavailable, smtp_greylisted],
          rawSmtpResponse = Some ''450 4.2.1 try later''\<rparr>"

section \<open>Choosing the exchangers to try (smtpValidator.ts)\<close>

record MxRecord =
  exchange :: string
  priority :: int

text \<open>
  Step 2 of \<open>validateSmtp\<close>. \<open>Array.prototype.sort\<close> with the comparator
  \<open>a.priority - b.priority\<close> is a stable sort on the priority, as \<open>sort_key\<close> is. The
  shuffle draws from \<open>Math.random()\<close>; the model takes the draws from a sequence
  \<open>rnd\<close> of natural numbers and uses \<open>rnd n mod m\<close> for
  \<open>Math.floor(Math.random() * m)\<close>, which can be any number below \<open>m\<close>.
\<close>

function findGroupEnd :: "MxRecord list \<Rightarrow> int \<Rightarrow> nat \<Rightarrow> nat" where
  "findGroupEnd sortedMx currentPriority j =
     (if j < length sortedMx \<and> priority (sortedMx ! j) = currentPriority
      then findGroupEnd sortedMx currentPriority (Suc j) else j)"
  by pat_completeness auto
termination
  by (relation "measure (\<lambda>(sortedMx, currentPriority, j). length sortedMx - j)") auto

declare findGroupEnd.simps [simp del]

text \<open>The Fisher-Yates loop \<open>for (k = j - 1; k > i; k--)\<close>, with the number of draws used.\<close>

function shuffleGroup ::
  "(nat \<Rightarrow> nat) \<Rightarrow> nat \<Rightarrow> nat \<Rightarrow> nat \<Rightarrow> MxRecord list \<Rightarrow> MxRecord list \<times> nat" where
  "shuffleGroup rnd n i k sortedMx =
     (if k > i then
        (let rand = i + rnd n mod (k - i + 1) in
         shuffleGroup rnd (Suc n) i (k - 1)
           (sortedMx[k := sortedMx ! rand, rand := sortedMx ! k]))
      else (sortedMx, n))"
  by pat_completeness auto
termination
  by (relation "measure (\<lambda>(rnd, n, i, k, sortedMx). k)") auto

declare shuffleGroup.simps [simp del]

lemma findGroupEnd_bounds:
  "j \<le> length sortedMx \<Longrightarrow>
   j \<le> findGroupEnd sortedMx p j \<and> findGroupEnd sortedMx p j \<le> length sortedMx"
proof (induction sortedMx p j rule: findGroupEnd.induct)
  case (1 sortedMx currentPriority j)
  show ?case
  proof (cases "j < length sortedMx \<and> priority (sortedMx ! j) = currentPriority")
    case True
    with "1.IH" have "Suc j \<le> findGroupEnd sortedMx currentPriority (Suc j)
        \<and> findGroupEnd sortedMx currentPriority (Suc j) \<le> length sortedMx"
      by simp
    moreover from True
    have "findGroupEnd sortedMx currentPriority j
        = findGroupEnd sortedMx currentPriority (Suc j)"
      by (subst findGroupEnd.simps) simp
    ultimately show ?thesis by simp
  next
    case False
    then have "findGroupEnd sortedMx currentPriority j = j"
      by (subst findGroupEnd.simps) auto
    with "1.prems" show ?thesis by simp
  qed
qed

lemma findGroupEnd_advances:
  "i < length sortedMx \<Longrightarrow> i < findGroupEnd sortedMx (priority (sortedMx ! i)) i"
proof -
  assume a: "i < length sortedMx"
  then have "findGroupEnd sortedMx (priority (sortedMx ! i)) i
      = findGroupEnd sortedMx (priority (sortedMx ! i)) (Suc i)"
    by (subst findGroupEnd.simps) simp
  moreover from a have "Suc i \<le> findGroupEnd sortedMx (priority (sortedMx ! i)) (Suc i)"
    using findGroupEnd_bounds[of "Suc i" sortedMx] by simp
  ultimately show ?thesis by simp
qed

lemma shuffleGroup_length:
  "length (fst (shuffleGroup rnd n i k sortedMx)) = length sortedMx"
proof (induction rnd n i k sortedMx rule: shuffleGroup.induct)
  case (1 rnd n i k sortedMx)
  show ?case
  proof (cases "k > i")
    case True
    then have "shuffleGroup rnd n i k sortedMx
        = shuffleGroup rnd (Suc n) i (k - 1)
            (sortedMx[k := sortedMx ! (i + rnd n mod (k - i + 1)),
                      i + rnd n mod (k - i + 1) := sortedMx ! k])"
      by (subst shuffleGroup.simps) (simp add: Let_def)
    with "1.IH"[OF True refl] show ?thesis
      by simp
  next
    case False
    then have "shuffleGroup rnd n i k sortedMx = (sortedMx, n)"
      by (subst shuffleGroup.simps) simp
    then show ?thesis by simp
  qed
qed

text \<open>The outer loop over the groups of equal priority.\<close>

function shuffleSamePriority ::
  "(nat \<Rightarrow> nat) \<Rightarrow> nat \<Rightarrow> nat \<Rightarrow> MxRecord list \<Rightarrow> MxRecord list" where
  "shuffleSamePriority rnd n i sortedMx =
     (if i < length sortedMx then
        (let currentPriority = priority (sortedMx ! i);
             j = findGroupEnd sortedMx currentPriority i;
             shuffled = shuffleGroup rnd n i (j - 1) sortedMx
         in shuffleSamePriority rnd (snd shuffled) j (fst shuffled))
      else sortedMx)"
  by pat_completeness auto
termination
proof (relation "measure (\<lambda>(rnd, n, i, sortedMx). length sortedMx - i)")
  show "wf (measure (\<lambda>(rnd, n, i, sortedMx). length sortedMx - i))"
    by simp
next
  fix rnd :: "nat \<Rightarrow> nat" and n i :: nat and sortedMx :: "MxRecord list"
    and currentPriority :: int and j :: nat and shuffled :: "MxRecord list \<times> nat"
  assume a: "i < length sortedMx" "currentPriority = priority (sortedMx ! i)"
    "j = findGroupEnd sortedMx currentPriority i"
    "shuffled = shuffleGroup rnd n i (j - 1) sortedMx"
  from a(1,2,3) findGroupEnd_advances[of i sortedMx] have "i < j" by simp
  moreover from a(4) have "length (fst shuffled) = length sortedMx"
    by (simp add: shuffleGroup_length)
  ultimately show "((rnd, snd shuffled, j, fst shuffled), (rnd, n, i, sortedMx))
      \<in> measure (\<lambda>(rnd, n, i, sortedMx). length sortedMx - i)"
    using a(1) by simp
qed

declare shuffleSamePriority.simps [simp del]

definition selectMx ::
  "SmtpValidationConfig \<Rightarrow> (nat \<Rightarrow> nat) \<Rightarrow> MxRecord list \<Rightarrow> MxRecord list" where
  "selectMx cfg rnd mxRecords =
     (let sortedMx = sort_key priority mxRecords;
          sortedMx = (if randomizeSamePriority cfg
                      then shuffleSamePriority rnd 0 0 sortedMx else sortedMx)
      in take (maxMxAttempts cfg) sortedMx)"

text \<open>The exchangers of the example in section 8 of the specification.\<close>

definition exampleMx :: "MxRecord list" where
  "exampleMx = [\<lparr>exchange = ''mx1'', priority = 10\<rparr>, \<lparr>exchange = ''mx2'', priority = 10\<rparr>,
                \<lparr>exchange = ''mx3'', priority = 20\<rparr>]"

section \<open>The orchestration (smtpValidator.ts)\<close>

text \<open>What \<open>validateMx\<close> hands over; \<open>mxRecords\<close> is optional in its result type.\<close>

record MxValidationResult =
  domainHasMx :: bool
  mxRecords :: "MxRecord list option"

datatype CatchAllAnswer = Yes | No | Inconclusive

text \<open>
  \<open>detectCatchAll\<close>, as a function of how its one call to \<open>validateSmtpSingle\<close> (for the
  random address) ends. The last two branches of the source both return
  \<open>'inconclusive'\<close>; they are kept apart as in the source.
\<close>

definition detectCatchAll :: "SingleOutcome \<Rightarrow> CatchAllAnswer" where
  "detectCatchAll outcome =
     (case outcome of
        Inl error \<Rightarrow> Inconclusive
      | Inr result \<Rightarrow>
          if smtpStatus result = Valid then Yes
          else if smtpStatus result = Invalid then No
          else if smtpStatus result = TemporarilyUnavailable \<or> smtpStatus result = Unknown
            then Inconclusive
          else Inconclusive)"

text \<open>
  The calls to \<open>validateSmtpSingle\<close> that \<open>validateSmtp\<close> makes, in order: for the probe
  address or for the real address, and to which exchanger. The \<open>n\<close>-th of them (from 0)
  has outcome \<open>net n\<close>.
\<close>

datatype SingleCall = ProbeCall string | AddressCall string

text \<open>
  Step 3, the loop over \<open>mxToTry\<close> that probes for a catch-all domain. It stops at the
  first \<open>yes\<close> (where the source returns from \<open>validateSmtp\<close>) or \<open>no\<close> (where it
  breaks); the caller tells the two apart by the answer.
\<close>

fun catchAllLoop ::
  "MxRecord list \<Rightarrow> (nat \<Rightarrow> SingleOutcome) \<Rightarrow> nat \<Rightarrow> CatchAllAnswer \<Rightarrow> SingleCall list
   \<Rightarrow> CatchAllAnswer \<times> nat \<times> SingleCall list" where
  "catchAllLoop [] net n catchAllResult calls = (catchAllResult, n, calls)"
| "catchAllLoop (mx # rest) net n catchAllResult calls =
     (if exchange mx = [] then catchAllLoop rest net n catchAllResult calls
      else
        (let answer = detectCatchAll (net n);
             calls' = calls @ [ProbeCall (exchange mx)]
         in if answer = Yes then (Yes, n + 1, calls')
            else if answer = No then (No, n + 1, calls')
            else catchAllLoop rest net (n + 1) answer calls'))"

text \<open>Names of the reason codes, \<open>Array.prototype.join\<close>, and decimal numerals.\<close>

fun reasonCodeName :: "ValidationReasonCode \<Rightarrow> string" where
  "reasonCodeName no_mx_records = ''no_mx_records''"
| "reasonCodeName smtp_valid = ''smtp_valid''"
| "reasonCodeName smtp_invalid = ''smtp_invalid''"
| "reasonCodeName smtp_catch_all = ''smtp_catch_all''"
| "reasonCodeName smtp_temporarily_unavailable = ''smtp_temporarily_unavailable''"
| "reasonCodeName smtp_connection_failed = ''smtp_connection_failed''"
| "reasonCodeName smtp_timeout = ''smtp_timeout''"
| "reasonCodeName smtp_greylisted = ''smtp_greylisted''"
| "reasonCodeName smtp_rate_limited = ''smtp_rate_limited''"
| "reasonCodeName smtp_soft_fails_exceeded = ''smtp_soft_fails_exceeded''"
| "reasonCodeName smtp_hard_block = ''smtp_hard_block''"
| "reasonCodeName smtp_conn_refused = ''smtp_conn_refused''"
| "reasonCodeName smtp_network_unreachable = ''smtp_network_unreachable''"
| "reasonCodeName smtp_conn_reset = ''smtp_conn_reset''"
| "reasonCodeName smtp_banner_timeout = ''smtp_banner_timeout''"
| "reasonCodeName smtp_ehlo_timeout = ''smtp_ehlo_timeout''"
| "reasonCodeName smtp_mail_timeout = ''smtp_mail_timeout''"
| "reasonCodeName smtp_rcpt_timeout = ''smtp_rcpt_timeout''"
| "reasonCodeName smtp_tls_required = ''smtp_tls_required''"
| "reasonCodeName smtp_tls_handshake_failed = ''smtp_tls_handshake_failed''"
| "reasonCodeName smtp_mx_all_failed = ''smtp_mx_all_failed''"

fun join :: "string \<Rightarrow> string list \<Rightarrow> string" where
  "join sep [] = []"
| "join sep [x] = x"
| "join sep (x # y # ys) = x @ sep @ join sep (y # ys)"

function showNat :: "nat \<Rightarrow> string" where
  "showNat n =
     (if n < 10 then [char_of (48 + n)]
      else showNat (n div 10) @ [char_of (48 + n mod 10)])"
  by pat_completeness auto
termination
  by (relation "measure id") auto

declare showNat.simps [simp del]

text \<open>
  \<open>failureReasons[mx.exchange] = ...\<close> on an object used as a dictionary: a key that is
  present keeps its place, a new key goes last.
\<close>

fun setReason :: "string \<Rightarrow> string \<Rightarrow> (string \<times> string) list \<Rightarrow> (string \<times> string) list" where
  "setReason k v [] = [(k, v)]"
| "setReason k v ((k', v') # rest) =
     (if k' = k then (k, v) # rest else (k', v') # setReason k v rest)"

text \<open>
  \<open>Object.entries\<close> lists first the keys that are array indices (the decimal numerals
  without leading zeros of the integers from 0 to \<open>2^32 - 2\<close>), by ascending value, and
  then the other keys in the order in which they were set.
\<close>

definition numeralValue :: "string \<Rightarrow> int" where
  "numeralValue k = foldl (\<lambda>n c. 10 * n + digitVal c) 0 k"

definition isArrayIndex :: "string \<Rightarrow> bool" where
  "isArrayIndex k =
     (k \<noteq> [] \<and> list_all isDigit k \<and> (length k = 1 \<or> hd k \<noteq> CHR ''0'')
      \<and> numeralValue k \<le> 4294967294)"

definition objectEntries :: "(string \<times> string) list \<Rightarrow> (string \<times> string) list" where
  "objectEntries entries =
     sort_key (\<lambda>entry. numeralValue (fst entry)) (filter (\<lambda>entry. isArrayIndex (fst entry)) entries)
     @ filter (\<lambda>entry. \<not> isArrayIndex (fst entry)) entries"

text \<open>
  Step 4, the loop that tries the real address. \<open>validateSmtpWithRetry\<close> never throws, so
  the \<open>catch\<close> around it in the source is never entered.
\<close>

fun addressLoop ::
  "SmtpValidationConfig \<Rightarrow> MxRecord list \<Rightarrow> (nat \<Rightarrow> SingleOutcome) \<Rightarrow> nat
   \<Rightarrow> (string \<times> string) list \<Rightarrow> SingleCall list
   \<Rightarrow> SmtpValidationResult option \<times> (string \<times> string) list \<times> SingleCall list" where
  "addressLoop cfg [] net n failureReasons calls = (None, failureReasons, calls)"
| "addressLoop cfg (mx # rest) net n failureReasons calls =
     (if exchange mx = [] then addressLoop cfg rest net n failureReasons calls
      else
        (let run = validateSmtpWithRetry cfg (\<lambda>attempt. net (n + attempt));
             result = retryResult run;
             calls' = calls @ replicate (callsMade run) (AddressCall (exchange mx))
         in if smtpStatus result = Valid \<or> smtpStatus result = Invalid
               \<or> smtpStatus result = CatchAll
            then (Some result, failureReasons, calls')
            else addressLoop cfg rest net (n + callsMade run)
                   (setReason (exchange mx)
                      (join '', '' (map reasonCodeName (reasonCodes result))) failureReasons)
                   calls'))"

text \<open>
  \<open>validateSmtp\<close>. \<open>mxLookup\<close> is how \<open>validateMx\<close> ends (\<open>Inl\<close> when it throws). Besides
  the verdict, the result records \<open>mxToTry\<close>, the value of \<open>catchAllResult\<close> when the
  function returns, and the calls to \<open>validateSmtpSingle\<close>.
\<close>

record ValidateRun =
  verdict :: SmtpValidationResult
  attempted :: "MxRecord list"
  catchAllResult :: CatchAllAnswer
  singleCalls :: "SingleCall list"

definition validateSmtp ::
  "SmtpValidationConfig \<Rightarrow> JsError + MxValidationResult \<Rightarrow> (nat \<Rightarrow> nat)
   \<Rightarrow> (nat \<Rightarrow> SingleOutcome) \<Rightarrow> ValidateRun" where
  "validateSmtp cfg mxLookup rnd net =
     (case mxLookup of
        Inl error \<Rightarrow>
          \<lparr>verdict = \<lparr>smtpStatus = Unknown, reasonCodes = [smtp_connection_failed],
                       rawSmtpResponse = Some (message error)\<rparr>,
           attempted = [], catchAllResult = Inconclusive, singleCalls = []\<rparr>
      | Inr mxResult \<Rightarrow>
          if \<not> domainHasMx mxResult \<or> mxRecords mxResult = None
             \<or> the (mxRecords mxResult) = [] then
            \<lparr>verdict = \<lparr>smtpStatus = Invalid, reasonCodes = [no_mx_records, smtp_invalid],
                         rawSmtpResponse = None\<rparr>,
             attempted = [], catchAllResult = Inconclusive, singleCalls = []\<rparr>
          else
            (let mxToTry = selectMx cfg rnd (the (mxRecords mxResult));
                 probe = catchAllLoop mxToTry net 0 Inconclusive []
             in if fst probe = Yes then
                  \<lparr>verdict = \<lparr>smtpStatus = CatchAll, reasonCodes = [smtp_catch_all],
                               rawSmtpResponse =
                                 Some ''Domain accepts all email addresses (catch-all)''\<rparr>,
                   attempted = mxToTry, catchAllResult = Yes,
                   singleCalls = snd (snd probe)\<rparr>
                else
                  (let tried = addressLoop cfg mxToTry net (fst (snd probe)) []
                                 (snd (snd probe))
                   in case fst tried of
                        Some result \<Rightarrow>
                          \<lparr>verdict = result, attempted = mxToTry,
                           catchAllResult = fst probe, singleCalls = snd (snd tried)\<rparr>
                      | None \<Rightarrow>
                          \<lparr>verdict =
                             \<lparr>smtpStatus = Unknown,
                              reasonCodes = [smtp_mx_all_failed, smtp_connection_failed],
                              rawSmtpResponse = Some
                                (''All '' @ showNat (length mxToTry) @ '' MX hosts failed: ''
                                 @ join ''; '' (map (\<lambda>(mx, reason). mx @ ''='' @ reason)
                                                  (objectEntries (fst (snd tried)))))\<rparr>,
                           attempted = mxToTry, catchAllResult = fst probe,
                           singleCalls = snd (snd tried)\<rparr>)))"

text \<open>An environment for examples: every server accepts every address.\<close>

definition acceptsEverything :: "nat \<Rightarrow> SingleOutcome" where
  "acceptsEverything k =
     Inr \<lparr>smtpStatus = Valid, reasonCodes = [smtp_valid],
          rawSmtpResponse = Some ''250 2.1.5 OK''\<rparr>"

section \<open>The handshake engine (smtpValidator.ts)\<close>

text \<open>\<open>String.prototype.trim\<close> on ASCII text, and \<open>split('\r\n')\<close>.\<close>

definition isSpace :: "char \<Rightarrow> bool" where
  "isSpace c = (let n = (of_char c :: nat) in (9 \<le> n \<and> n \<le> 13) \<or> n = 32)"

definition trim :: "string \<Rightarrow> string" where
  "trim s = rev (dropWhile isSpace (rev (dropWhile isSpace s)))"

definition CRLF :: string where
  "CRLF = [CHR 0x0D, CHR 0x0A]"

fun splitCRLF :: "string \<Rightarrow> string \<Rightarrow> string list" where
  "splitCRLF piece [] = [piece]"
| "splitCRLF piece [c] = [piece @ [c]]"
| "splitCRLF piece (c # d # rest) =
     (if c = CHR 0x0D \<and> d = CHR 0x0A then piece # splitCRLF [] rest
      else splitCRLF (piece @ [c]) (d # rest))"

text \<open>
  The variables the promise executor of \<open>performSmtpHandshake\<close> closes over, together
  with what it has done to the outside: the commands written to the socket, in order, and
  how the promise was settled, if it was. \<open>step\<close> is 0 while waiting for the banner, 1 for
  the EHLO reply, 3 for the MAIL FROM reply and 4 for the RCPT TO reply.
\<close>

record Handshake =
  buffer :: string
  step :: nat
  rawResponse :: string
  ehloCapabilities :: "string list"
  currentTimeout :: "(string \<times> int) option"
  written :: "string list"
  settled :: "HandshakeOutcome option"

definition resolve :: "SmtpValidationResult \<Rightarrow> Handshake \<Rightarrow> Handshake" where
  "resolve result hs = (if settled hs = None then hs\<lparr>settled := Some (Resolved result)\<rparr> else hs)"

definition reject :: "JsError \<Rightarrow> Handshake \<Rightarrow> Handshake" where
  "reject error hs = (if settled hs = None then hs\<lparr>settled := Some (Rejected error)\<rparr> else hs)"

definition socketWrite :: "string \<Rightarrow> Handshake \<Rightarrow> Handshake" where
  "socketWrite command hs = hs\<lparr>written := written hs @ [command]\<rparr>"

definition setPhaseTimeout :: "string \<Rightarrow> int \<Rightarrow> Handshake \<Rightarrow> Handshake" where
  "setPhaseTimeout phase timeoutMs hs = hs\<lparr>currentTimeout := Some (phase, timeoutMs)\<rparr>"

definition newError :: "string \<Rightarrow> JsError" where
  "newError msg = \<lparr>message = msg, errCode = None\<rparr>"

definition tlsRequired :: "string \<Rightarrow> SmtpValidationResult" where
  "tlsRequired raw =
     \<lparr>smtpStatus = Unknown, reasonCodes = [smtp_tls_required], rawSmtpResponse = Some raw\<rparr>"

text \<open>\<open>line[3] === '-'\<close>: the line is a continuation line of a multi-line reply.\<close>

definition isContinuation :: "string \<Rightarrow> bool" where
  "isContinuation line = (3 < length line \<and> line ! 3 = CHR ''-'')"

text \<open>The capability list after a line of the EHLO reply has been looked at.\<close>

definition capabilityOf :: "string \<Rightarrow> string" where
  "capabilityOf line = toUpperCase (trim (drop 4 line))"

definition capabilitiesAfter :: "Handshake \<Rightarrow> string \<Rightarrow> string list" where
  "capabilitiesAfter hs line =
     (if isContinuation line then
        (if step hs = 1 \<and> capabilityOf line \<noteq> []
         then ehloCapabilities hs @ [capabilityOf line] else ehloCapabilities hs)
      else if step hs = 1 \<and> extractSmtpCode line = 250 \<and> length line > 4
              \<and> capabilityOf line \<noteq> [] \<and> capabilityOf line \<notin> set (ehloCapabilities hs)
        then ehloCapabilities hs @ [capabilityOf line]
      else ehloCapabilities hs)"

text \<open>
  The body of \<open>for (const line of lines)\<close> for one line. Where the source leaves the
  handler with \<open>return resolve(...)\<close> or \<open>return reject(...)\<close> the promise is settled, and
  the loop below stops there.
\<close>

definition handleLine :: "SmtpValidationConfig \<Rightarrow> string \<Rightarrow> Handshake \<Rightarrow> string \<Rightarrow> Handshake" where
  "handleLine cfg email hs0 line =
     (if line = [] then hs0
      else
        (let hs1 = hs0\<lparr>rawResponse := rawResponse hs0 @ line @ [CHR 0x0A],
                       ehloCapabilities := capabilitiesAfter hs0 line\<rparr>;
             code = extractSmtpCode line
         in if isContinuation line then hs1
            else
              (let hs = hs1\<lparr>currentTimeout := None\<rparr> in
               if step hs = 0 then
                 (if code \<noteq> 220 then reject (newError (''Unexpected greeting: '' @ line)) hs
                  else (socketWrite (''EHLO '' @ heloDomain cfg @ CRLF)
                          (setPhaseTimeout ''ehlo'' (ehloTimeoutMs cfg) hs))\<lparr>step := 1\<rparr>)
               else if step hs = 1 then
                 (if code = 530 then
                    resolve (tlsRequired (''530 Must issue STARTTLS first: '' @ line))
                      (socketWrite (''QUIT'' @ CRLF) hs)
                  else if code \<noteq> 250 then reject (newError (''EHLO rejected: '' @ line)) hs
                  else
                    (let hasStartTls = (''STARTTLS'' \<in> set (ehloCapabilities hs)) in
                     if requireTls cfg \<and> \<not> hasStartTls then
                       resolve (tlsRequired
                           (''TLS required but server lacks STARTTLS capability. Capabilities: ''
                            @ join '', '' (ehloCapabilities hs)))
                         (socketWrite (''QUIT'' @ CRLF) hs)
                     else if hasStartTls \<and> requireTls cfg then
                       resolve (tlsRequired
                           ''TLS required but STARTTLS upgrade not yet implemented'')
                         (socketWrite (''QUIT'' @ CRLF) hs)
                     else
                       (socketWrite (''MAIL FROM:<'' @ mailFrom cfg @ ''>'' @ CRLF)
                          (setPhaseTimeout ''mail'' (mailTimeoutMs cfg) hs))\<lparr>step := 3\<rparr>))
               else if step hs = 3 then
                 (if code = 530 then
                    resolve (tlsRequired line) (socketWrite (''QUIT'' @ CRLF) hs)
                  else if code \<noteq> 250 then
                    reject (newError (''MAIL FROM rejected: '' @ line)) hs
                  else
                    (socketWrite (''RCPT TO:<'' @ email @ ''>'' @ CRLF)
                       (setPhaseTimeout ''rcpt'' (rcptTimeoutMs cfg) hs))\<lparr>step := 4\<rparr>)
               else if step hs = 4 then
                 resolve (interpretSmtpCode code line (rawResponse hs))
                   (socketWrite (''QUIT'' @ CRLF) hs)
               else hs)))"

fun handleLines :: "SmtpValidationConfig \<Rightarrow> string \<Rightarrow> Handshake \<Rightarrow> string list \<Rightarrow> Handshake" where
  "handleLines cfg email hs [] = hs"
| "handleLines cfg email hs (line # rest) =
     (let hs' = handleLine cfg email hs line
      in if settled hs' \<noteq> settled hs then hs' else handleLines cfg email hs' rest)"

text \<open>
  The events the executor listens to: data from the socket, the phase timer, and the
  socket's \<open>error\<close>, \<open>timeout\<close> and \<open>end\<close>. The caller destroys the socket as soon as the
  promise is settled (the \<open>finally\<close> block of \<open>validateSmtpSingle\<close> runs before any further
  socket event), so events after that change nothing.
\<close>

datatype SocketEvent =
  Data string | PhaseTimerFires | SocketError JsError | SocketTimeout | SocketEnd

definition onData :: "SmtpValidationConfig \<Rightarrow> string \<Rightarrow> Handshake \<Rightarrow> string \<Rightarrow> Handshake" where
  "onData cfg email hs chunk =
     (let buf = buffer hs @ chunk in
      if \<not> includesStr buf CRLF then hs\<lparr>buffer := buf\<rparr>
      else
        (let pieces = splitCRLF [] buf
         in handleLines cfg email (hs\<lparr>buffer := last pieces\<rparr>) (butlast pieces)))"

definition handleEvent ::
  "SmtpValidationConfig \<Rightarrow> string \<Rightarrow> Handshake \<Rightarrow> SocketEvent \<Rightarrow> Handshake" where
  "handleEvent cfg email hs event =
     (if settled hs \<noteq> None then hs
      else case event of
        Data chunk \<Rightarrow> onData cfg email hs chunk
      | PhaseTimerFires \<Rightarrow>
          (case currentTimeout hs of
             None \<Rightarrow> hs
           | Some (phase, timeoutMs) \<Rightarrow> reject (newError (phase @ ''_timeout'')) hs)
      | SocketError error \<Rightarrow> reject error (hs\<lparr>currentTimeout := None\<rparr>)
      | SocketTimeout \<Rightarrow> reject (newError ''Socket timeout'') (hs\<lparr>currentTimeout := None\<rparr>)
      | SocketEnd \<Rightarrow>
          (if step hs < 4
           then reject (newError ''Connection closed prematurely'') (hs\<lparr>currentTimeout := None\<rparr>)
           else hs\<lparr>currentTimeout := None\<rparr>))"

definition connectHandshake :: "SmtpValidationConfig \<Rightarrow> Handshake" where
  "connectHandshake cfg =
     \<lparr>buffer = [], step = 0, rawResponse = [], ehloCapabilities = [],
      currentTimeout = Some (''banner'', bannerTimeoutMs cfg), written = [], settled = None\<rparr>"

fun performSmtpHandshake ::
  "SmtpValidationConfig \<Rightarrow> string \<Rightarrow> Handshake \<Rightarrow> SocketEvent list \<Rightarrow> Handshake" where
  "performSmtpHandshake cfg email hs [] = hs"
| "performSmtpHandshake cfg email hs (event # events) =
     performSmtpHandshake cfg email (handleEvent cfg email hs event) events"

text \<open>A server that greets, lists its capabilities without STARTTLS, and accepts; and
  the same configuration as the default but with TLS required.\<close>

definition plainServer :: "SocketEvent list" where
  "plainServer =
     [Data (''220 mail.example.com ESMTP'' @ CRLF),
      Data (''250-mail.example.com'' @ CRLF @ ''250-PIPELINING'' @ CRLF @ ''250 8BITMIME'' @ CRLF),
      Data (''250 2.1.0 Ok'' @ CRLF),
      Data (''250 2.1.5 Ok'' @ CRLF)]"

definition tlsRequiredConfig :: SmtpValidationConfig where
  "tlsRequiredConfig = defaultSmtpConfig\<lparr>requireTls := True\<rparr>"

text \<open>A server that does not know EHLO.\<close>

definition ehloRefusingServer :: "SocketEvent list" where
  "ehloRefusingServer =
     [Data (''220 mail.example.com SMTP'' @ CRLF),
      Data (''502 5.5.2 Error: command not recognized'' @ CRLF)]"

text \<open>For stating what the engine returned and what it sent.\<close>

definition tlsRequiredVerdict :: "Handshake \<Rightarrow> bool" where
  "tlsRequiredVerdict hs =
     (\<exists>r. settled hs = Some (Resolved r) \<and> smtpStatus r = Unknown
          \<and> reasonCodes r = [smtp_tls_required])"

definition sentMailFrom :: "Handshake \<Rightarrow> bool" where
  "sentMailFrom hs = list_ex (\<lambda>command. startsWith command ''MAIL FROM'') (written hs)"

text \<open>The engine has not got past the EHLO reply and has not sent MAIL FROM.\<close>

definition beforeMail :: "Handshake \<Rightarrow> bool" where
  "beforeMail hs = (step hs \<le> 1 \<and> \<not> sentMailFrom hs)"

section \<open>The distributed throttle (redis.ts, throttleState.ts)\<close>

text \<open>
  The part of the Redis key space the throttle uses. The counters, the penalty and the
  last-attempt time are decimal numerals under keys that end in \<open>:concurrency\<close>,
  \<open>:penalty\<close> and \<open>:lastAttempt\<close>; the state of a host is a JSON document under a key
  that ends in \<open>:state\<close>, so no key holds both kinds and they are kept apart here. Every
  key may carry the instant, on the server's clock and in milliseconds, at which it
  expires: from then on the server treats it as absent. Every command below takes the
  server's clock value \<open>T\<close> at which it runs.
\<close>

record Redis =
  numbers :: "string \<rightharpoonup> int \<times> int option"
  documents :: "string \<rightharpoonup> MxState \<times> int option"


definition live :: "int \<Rightarrow> int option \<Rightarrow> bool" where
  "live T expiry = (case expiry of None \<Rightarrow> True | Some e \<Rightarrow> T < e)"

text \<open>\<open>tonumber(redis.call('GET', key)) or 0\<close>.\<close>

definition getNumber :: "Redis \<Rightarrow> int \<Rightarrow> string \<Rightarrow> int" where
  "getNumber r T k =
     (case numbers r k of
        None \<Rightarrow> 0
      | Some (v, expiry) \<Rightarrow> if live T expiry then v else 0)"





definition redisExpire :: "Redis \<Rightarrow> int \<Rightarrow> string \<Rightarrow> int \<Rightarrow> Redis" where
  "redisExpire r T k ttl =
     (case numbers r k of
        None \<Rightarrow> r
      | Some (v, expiry) \<Rightarrow>
          if live T expiry then r\<lparr>numbers := (numbers r)(k \<mapsto> (v, Some (T + 1000 * ttl)))\<rparr>
          else r)"



record SlotReply =
  acquired :: bool
  reason :: string
  replyGlobalConcurrency :: int
  replyMxConcurrency :: int
  waitMs :: "int option"


































text \<open>The number a key holds and whether it outlives an instant, whatever the clock.\<close>

definition rawNumber :: "Redis \<Rightarrow> string \<Rightarrow> int" where
  "rawNumber r k = (case numbers r k of None \<Rightarrow> 0 | Some (v, expiry) \<Rightarrow> v)"

definition outlives :: "int \<Rightarrow> Redis \<Rightarrow> string \<Rightarrow> bool" where
  "outlives end r k =
     (case numbers r k of
        None \<Rightarrow> True
      | Some (v, expiry) \<Rightarrow> (case expiry of None \<Rightarrow> True | Some e \<Rightarrow> end \<le> e))"

text \<open>The expiry of a key as the server sees it at instant \<open>T\<close>: none when the key is
  absent or has expired by then.\<close>

definition expiryAt :: "Redis \<Rightarrow> int \<Rightarrow> string \<Rightarrow> int option" where
  "expiryAt r T k =
     (case numbers r k of
        None \<Rightarrow> None
      | Some (v, expiry) \<Rightarrow> if live T expiry then expiry else None)"








section \<open>Verdicts from reply codes and faults\<close>

lemma interpret_2xx:
  "200 \<le> code \<Longrightarrow> code < 300 \<Longrightarrow>
   interpretSmtpCode code msg raw =
     (if catchAllLanguage (toLowerCase msg)
      then \<lparr>smtpStatus = CatchAll, reasonCodes = [smtp_catch_all], rawSmtpResponse = Some raw\<rparr>
      else \<lparr>smtpStatus = Valid, reasonCodes = [smtp_valid], rawSmtpResponse = Some raw\<rparr>)"
  by (simp add: interpretSmtpCode_def)

lemma interpret_4xx:
  "400 \<le> code \<Longrightarrow> code < 500 \<Longrightarrow>
   interpretSmtpCode code msg raw =
     \<lparr>smtpStatus = TemporarilyUnavailable,
      reasonCodes = [smtp_temporarily_unavailable]
        @ (if greylistIndicator code (toLowerCase msg) then [smtp_greylisted] else [])
        @ (if rateLimitIndicator code (toLowerCase msg) then [smtp_rate_limited] else []),
      rawSmtpResponse = Some raw\<rparr>"
  by (simp add: interpretSmtpCode_def)

lemma interpret_5xx:
  "500 \<le> code \<Longrightarrow> code < 600 \<Longrightarrow>
   interpretSmtpCode code msg raw =
     \<lparr>smtpStatus = Invalid, reasonCodes = [smtp_invalid], rawSmtpResponse = Some raw\<rparr>"
  by (simp add: interpretSmtpCode_def)

lemma interpret_other:
  "code < 200 \<or> (300 \<le> code \<and> code < 400) \<or> 600 \<le> code \<Longrightarrow>
   interpretSmtpCode code msg raw =
     \<lparr>smtpStatus = Unknown, reasonCodes = [smtp_connection_failed], rawSmtpResponse = Some raw\<rparr>"
  by (auto simp add: interpretSmtpCode_def)

lemma mapError_status:
  "extractSmtpCode (message err) = 0 \<Longrightarrow> smtpStatus (mapErrorToResult err) = Unknown"
  by (simp add: mapErrorToResult_def Let_def)

lemma mapError_phase:
  assumes "extractSmtpCode (message err) = 0"
  shows "reasonCodes (mapErrorToResult err) =
     (if includesStr (message err) ''banner_timeout'' then [smtp_banner_timeout, smtp_timeout]
      else if includesStr (message err) ''ehlo_timeout'' then [smtp_ehlo_timeout, smtp_timeout]
      else if includesStr (message err) ''mail_timeout'' then [smtp_mail_timeout, smtp_timeout]
      else if includesStr (message err) ''rcpt_timeout'' then [smtp_rcpt_timeout, smtp_timeout]
      else if isConnRefused err then [smtp_conn_refused, smtp_connection_failed]
      else if isNetUnreachable err then [smtp_network_unreachable, smtp_connection_failed]
      else if isConnReset err then [smtp_conn_reset, smtp_connection_failed]
      else if isGenericTimeout err then [smtp_timeout]
      else [smtp_connection_failed])"
  using assms by (simp add: mapErrorToResult_def Let_def)

text \<open>
  Claim C1, as amended. \<open>interpretSmtpCode\<close> maps a reply code in [200,300) to
  \<open>valid\<close>, or to \<open>catch_all\<close> when the lower-cased text contains catch-all or
  accept-all language; a code in [400,500) to \<open>temporarily_unavailable\<close>, with the
  tags \<open>smtp_greylisted\<close> and \<open>smtp_rate_limited\<close> added from the code or the keywords;
  a code in [500,600) to \<open>invalid\<close>; every other code to \<open>unknown\<close>. An error whose
  message does not start with a non-zero three-digit code is mapped by
  \<open>mapErrorToResult\<close> to \<open>unknown\<close>, tagged by the first class that matches, in the
  order banner, EHLO, MAIL and RCPT timeout, connection refused, network unreachable,
  connection reset, generic timeout; a fault of none of these classes gets the single
  generic reason \<open>smtp_connection_failed\<close>.
\<close>

theorem verdict_from_reply_code:
  "(200 \<le> code \<and> code < 300 \<longrightarrow>
      smtpStatus (interpretSmtpCode code msg raw) =
        (if catchAllLanguage (toLowerCase msg) then CatchAll else Valid))
   \<and> (400 \<le> code \<and> code < 500 \<longrightarrow>
      smtpStatus (interpretSmtpCode code msg raw) = TemporarilyUnavailable
      \<and> reasonCodes (interpretSmtpCode code msg raw) =
          [smtp_temporarily_unavailable]
          @ (if greylistIndicator code (toLowerCase msg) then [smtp_greylisted] else [])
          @ (if rateLimitIndicator code (toLowerCase msg) then [smtp_rate_limited] else []))
   \<and> (500 \<le> code \<and> code < 600 \<longrightarrow>
      smtpStatus (interpretSmtpCode code msg raw) = Invalid)
   \<and> (code < 200 \<or> (300 \<le> code \<and> code < 400) \<or> 600 \<le> code \<longrightarrow>
      smtpStatus (interpretSmtpCode code msg raw) = Unknown)
   \<and> (extractSmtpCode (message err) = 0 \<longrightarrow>
      smtpStatus (mapErrorToResult err) = Unknown
      \<and> reasonCodes (mapErrorToResult err) =
         (if includesStr (message err) ''banner_timeout'' then [smtp_banner_timeout, smtp_timeout]
          else if includesStr (message err) ''ehlo_timeout'' then [smtp_ehlo_timeout, smtp_timeout]
          else if includesStr (message err) ''mail_timeout'' then [smtp_mail_timeout, smtp_timeout]
          else if includesStr (message err) ''rcpt_timeout'' then [smtp_rcpt_timeout, smtp_timeout]
          else if isConnRefused err then [smtp_conn_refused, smtp_connection_failed]
          else if isNetUnreachable err then [smtp_network_unreachable, smtp_connection_failed]
          else if isConnReset err then [smtp_conn_reset, smtp_connection_failed]
          else if isGenericTimeout err then [smtp_timeout]
          else [smtp_connection_failed]))"
  using interpret_2xx[of code msg raw] interpret_4xx[of code msg raw]
    interpret_5xx[of code msg raw] interpret_other[of code msg raw]
    mapError_status[of err] mapError_phase[of err]
  by simp

text \<open>The theorem at the replies of section 8 of the specification and at two faults.\<close>

theorem verdict_from_reply_code_witness:
  "smtpStatus (interpretSmtpCode 250 ''250 2.1.5 OK'' ''r'') = Valid
   \<and> smtpStatus (interpretSmtpCode 250 ''250 OK (domain accepts all mail)'' ''r'') = CatchAll
   \<and> reasonCodes (interpretSmtpCode 450 ''450 4.2.1 try later'' ''r'')
       = [smtp_temporarily_unavailable, smtp_greylisted]
   \<and> reasonCodes (interpretSmtpCode 421 ''421 Too many connections'' ''r'')
       = [smtp_temporarily_unavailable, smtp_rate_limited]
   \<and> smtpStatus (interpretSmtpCode 550 ''550 5.1.1 No such user'' ''r'') = Invalid
   \<and> smtpStatus (interpretSmtpCode 354 ''354 go ahead'' ''r'') = Unknown
   \<and> extractSmtpCode ''read ECONNRESET'' = 0
   \<and> reasonCodes (mapErrorToResult \<lparr>message = ''read ECONNRESET'', errCode = Some ''ECONNRESET''\<rparr>)
       = [smtp_conn_reset, smtp_connection_failed]
   \<and> reasonCodes (mapErrorToResult \<lparr>message = ''rcpt_timeout'', errCode = None\<rparr>)
       = [smtp_rcpt_timeout, smtp_timeout]"
proof -
  let ?reset = "\<lparr>message = ''read ECONNRESET'', errCode = Some ''ECONNRESET''\<rparr>"
  let ?rcpt = "\<lparr>message = ''rcpt_timeout'', errCode = None\<rparr>"
  have e1: "extractSmtpCode (message ?reset) = 0" by code_simp
  have e2: "extractSmtpCode (message ?rcpt) = 0" by code_simp
  have e3: "extractSmtpCode ''read ECONNRESET'' = 0" by code_simp
  have c1: "\<not> catchAllLanguage (toLowerCase ''250 2.1.5 OK'')" by code_simp
  have c2: "catchAllLanguage (toLowerCase ''250 OK (domain accepts all mail)'')" by code_simp
  have g1: "greylistIndicator 450 (toLowerCase ''450 4.2.1 try later'')" by code_simp
  have g2: "\<not> rateLimitIndicator 450 (toLowerCase ''450 4.2.1 try later'')" by code_simp
  have g3: "\<not> greylistIndicator 421 (toLowerCase ''421 Too many connections'')" by code_simp
  have g4: "rateLimitIndicator 421 (toLowerCase ''421 Too many connections'')" by code_simp
  have r1: "\<not> includesStr (message ?reset) ''banner_timeout''"
           "\<not> includesStr (message ?reset) ''ehlo_timeout''"
           "\<not> includesStr (message ?reset) ''mail_timeout''"
           "\<not> includesStr (message ?reset) ''rcpt_timeout''"
           "\<not> isConnRefused ?reset" "\<not> isNetUnreachable ?reset" "isConnReset ?reset"
    by code_simp+
  have r2: "\<not> includesStr (message ?rcpt) ''banner_timeout''"
           "\<not> includesStr (message ?rcpt) ''ehlo_timeout''"
           "\<not> includesStr (message ?rcpt) ''mail_timeout''"
           "includesStr (message ?rcpt) ''rcpt_timeout''"
    by code_simp+
  show ?thesis
    using verdict_from_reply_code[of 250 "''250 2.1.5 OK''" "''r''" ?reset]
      verdict_from_reply_code[of 250 "''250 OK (domain accepts all mail)''" "''r''" ?rcpt]
      verdict_from_reply_code[of 450 "''450 4.2.1 try later''" "''r''" ?reset]
      verdict_from_reply_code[of 421 "''421 Too many connections''" "''r''" ?reset]
      verdict_from_reply_code[of 550 "''550 5.1.1 No such user''" "''r''" ?reset]
      verdict_from_reply_code[of 354 "''354 go ahead''" "''r''" ?reset]
      e1 e2 e3 c1 c2 g1 g2 g3 g4 r1 r2
    by simp
qed

text \<open>
  Claim C1 as first stated gives every fault one of the five tagged reasons. The
  handshake's own error for a connection closed before RCPT matches none of them.
\<close>

theorem untagged_fault_counterexample:
  "extractSmtpCode ''Connection closed prematurely'' = 0
   \<and> reasonCodes (mapErrorToResult
        \<lparr>message = ''Connection closed prematurely'', errCode = None\<rparr>)
      = [smtp_connection_failed]
   \<and> set (reasonCodes (mapErrorToResult
        \<lparr>message = ''Connection closed prematurely'', errCode = None\<rparr>))
      \<inter> {smtp_banner_timeout, smtp_ehlo_timeout, smtp_mail_timeout, smtp_rcpt_timeout,
          smtp_conn_refused, smtp_network_unreachable, smtp_conn_reset, smtp_timeout} = {}"
  by code_simp

section \<open>Acquiring a slot\<close>

lemma acquireCheck_Acquire:
  "acquireCheck cfg startTime now state global = Acquire \<Longrightarrow>
   \<not> penaltyActive state now \<and> \<not> intervalNotMet state (perDomainMinIntervalMs cfg) now
   \<and> global < maxGlobalConcurrency cfg \<and> concurrency state < maxConcurrency state
   \<and> now - startTime \<le> maxWaitTime"
  by (auto simp: acquireCheck_def split: if_splits)

lemma acquireCheck_TimedOut:
  "acquireCheck cfg startTime now state global = TimedOut \<Longrightarrow> maxWaitTime < now - startTime"
  by (auto simp: acquireCheck_def split: if_splits)

lemma runSteps_append: "runSteps (xs @ ys) st = runSteps ys (runSteps xs st)"
  by (induction xs arbitrary: st) simp_all

lemma runSteps_during_sleep:
  "runSteps (concat (take (Suc n) others)) st
   = runSteps (concat (take n (tl others)))
       (runSteps (case others of [] \<Rightarrow> [] | steps # later \<Rightarrow> steps) st)"
  by (cases others) (simp_all add: runSteps_append)

lemma waitLoop_result:
  "waitLoop cfg startTime late ref others k now sleeps st = (ok, t, sl, st2) \<Longrightarrow>
   (if ok then acquireCheck cfg startTime t (objects st2 ref) (globalConcurrency st2) = Acquire
    else acquireCheck cfg startTime t (objects st2 ref) (globalConcurrency st2) = TimedOut)
   \<and> (\<exists>new. sl = sleeps @ new \<and> (\<forall>ms\<in>set new. 0 < ms) \<and> now + sum_list new \<le> t
          \<and> st2 = runSteps (concat (take (length new) others)) st)"
proof (induction cfg startTime late ref others k now sleeps st rule: waitLoop.induct)
  case (1 cfg startTime late ref others k now sleeps st)
  show ?case
  proof (cases "acquireCheck cfg startTime now (objects st ref) (globalConcurrency st)")
    case TimedOut
    with "1.prems" show ?thesis by (simp add: waitLoop.simps)
  next
    case (Sleep ms)
    let ?st' = "runSteps (case others of [] \<Rightarrow> [] | steps # later \<Rightarrow> steps) st"
    from Sleep have pos: "0 < ms" using acquireCheck_Sleep by blast
    from Sleep "1.prems" have
      "waitLoop cfg startTime late ref (tl others) (Suc k) (now + ms + int (late k))
         (sleeps @ [ms]) ?st' = (ok, t, sl, st2)"
      by (simp add: waitLoop.simps)
    from "1.IH"[OF Sleep this] obtain new where
      a: "if ok then acquireCheck cfg startTime t (objects st2 ref) (globalConcurrency st2) = Acquire
          else acquireCheck cfg startTime t (objects st2 ref) (globalConcurrency st2) = TimedOut"
      and b: "sl = (sleeps @ [ms]) @ new" "\<forall>ms\<in>set new. 0 < ms"
             "now + ms + int (late k) + sum_list new \<le> t"
             "st2 = runSteps (concat (take (length new) (tl others))) ?st'"
      by blast
    from b(4) have "st2 = runSteps (concat (take (length (ms # new)) others)) st"
      by (simp only: list.size runSteps_during_sleep[symmetric] Suc_eq_plus1[symmetric]
          add_Suc_right add_0_right)
    with b pos have "sl = sleeps @ (ms # new) \<and> (\<forall>m\<in>set (ms # new). 0 < m)
        \<and> now + sum_list (ms # new) \<le> t
        \<and> st2 = runSteps (concat (take (length (ms # new)) others)) st"
      by auto
    with a show ?thesis by blast
  next
    case Acquire
    with "1.prems" show ?thesis by (simp add: waitLoop.simps)
  qed
qed

lemma getOrCreateState_reference:
  "getOrCreateState mxHost maxMx st = (ref, st1) \<Longrightarrow>
   references st1 (toLowerCase mxHost) = Some ref"
  by (auto simp: getOrCreateState_def Let_def split: option.splits)

lemma getOrCreateState_keeps_reference:
  "references st h = Some ref \<Longrightarrow> references (snd (getOrCreateState other maxMx st)) h = Some ref"
  by (auto simp: getOrCreateState_def Let_def split: option.splits)

lemma applyStep_keeps_reference:
  "action \<noteq> StepClearAll \<Longrightarrow> references st h = Some ref \<Longrightarrow>
   references (applyStep action st) h = Some ref"
  by (cases action)
     (auto simp: getOrCreateState_keeps_reference grant_def releaseSlot_def recordSuccess_def
        recordFailure_def split: option.splits AcquireStep.splits)

lemma runSteps_keeps_reference:
  "StepClearAll \<notin> set steps \<Longrightarrow> references st h = Some ref \<Longrightarrow>
   references (runSteps steps st) h = Some ref"
proof (induction steps arbitrary: st)
  case Nil
  then show ?case by simp
next
  case (Cons a steps)
  from Cons.prems have "a \<noteq> StepClearAll" "StepClearAll \<notin> set steps"
    by auto
  from Cons.IH[OF this(2) applyStep_keeps_reference[OF this(1) Cons.prems(2)]]
  show ?case by simp
qed

lemma penalty_over:
  "\<not> penaltyActive state t \<Longrightarrow> penaltyUntil state = Some p \<Longrightarrow> p \<noteq> 0 \<Longrightarrow> p \<le> t"
  by (auto simp: penaltyActive_def)

lemma interval_elapsed:
  "\<not> intervalNotMet state d t \<Longrightarrow> lastAttemptAt state = Some l \<Longrightarrow> l \<noteq> 0 \<Longrightarrow> d \<le> t - l"
  by (auto simp: intervalNotMet_def)

lemma acquireSlot_unfold:
  assumes "getOrCreateState mxHost (maxMxConcurrency cfg) st = (ref, st1)"
      and "waitLoop cfg startTime late ref others 0 startTime [] st1 = (ok, t, sl, st2)"
  shows "acquireSlot mxHost cfg startTime late others st =
     (if ok then
        \<lparr>thrown = None, returnedAt = t, sleptFor = sl, heldRef = ref,
         storeBefore = st2, storeAfter = grant ref t st2\<rparr>
      else
        \<lparr>thrown = Some \<lparr>message = ''Timeout waiting for slot to '' @ mxHost, errCode = None\<rparr>,
         returnedAt = t, sleptFor = sl, heldRef = ref, storeBefore = st2, storeAfter = st2\<rparr>)"
  using assms by (simp add: acquireSlot_def)

text \<open>
  Claim C4. \<open>ref\<close> is the reference \<open>acquireSlot\<close> gets on entry, \<open>moment\<close> the store as
  the last pass of its loop finds it, and \<open>state\<close> the object behind the reference then.
  The store at that moment is the store on entry after everything the other callers did
  during the sleeps, and as long as none of them cleared the map, \<open>state\<close> is the state
  the map holds for the host. If \<open>acquireSlot\<close> returns normally, then at that moment,
  which is the moment of acquisition: no penalty is active (a recorded penalty has
  ended), at least \<open>perDomainMinIntervalMs\<close> have passed since the recorded last attempt,
  the global count is strictly below the global ceiling and the host's count strictly
  below its adaptive ceiling; and in the same step both counts go up by one and the
  instant becomes the last attempt. A timestamp of 0 counts as not recorded, since the
  code tests timestamps for truthiness. The call returns normally exactly when its last
  pass began no more than 60000 ms after entry, and otherwise throws the timeout error
  and leaves the store as that pass found it. Every pass that neither acquires nor times
  out sleeps for a positive time, and the clock on return is at least the entry time
  plus the time slept. The function is total, so one of the two outcomes always happens.
\<close>

theorem acquireSlot_gate:
  assumes create: "getOrCreateState mxHost (maxMxConcurrency cfg) st = (ref, st1)"
      and run: "acquireSlot mxHost cfg startTime late others st = r"
      and moment: "moment = storeBefore r"
      and state: "state = objects moment ref"
  shows "moment = runSteps (concat (take (length (sleptFor r)) others)) st1
       \<and> (StepClearAll \<notin> set (concat (take (length (sleptFor r)) others)) \<longrightarrow>
            mxStates moment (toLowerCase mxHost) = Some state)
       \<and> (thrown r = None \<longrightarrow>
            (\<forall>p. penaltyUntil state = Some p \<and> p \<noteq> 0 \<longrightarrow> p \<le> returnedAt r)
          \<and> (\<forall>l. lastAttemptAt state = Some l \<and> l \<noteq> 0 \<longrightarrow>
                 perDomainMinIntervalMs cfg \<le> returnedAt r - l)
          \<and> globalConcurrency moment < maxGlobalConcurrency cfg
          \<and> concurrency state < maxConcurrency state
          \<and> storeAfter r = grant ref (returnedAt r) moment
          \<and> globalConcurrency (storeAfter r) = globalConcurrency moment + 1
          \<and> objects (storeAfter r) ref =
              state\<lparr>concurrency := concurrency state + 1,
                    totalAttempts := totalAttempts state + 1,
                    lastAttemptAt := Some (returnedAt r)\<rparr>)
       \<and> (thrown r = None \<longleftrightarrow> returnedAt r - startTime \<le> 60000)
       \<and> (thrown r \<noteq> None \<longrightarrow>
            thrown r = Some \<lparr>message = ''Timeout waiting for slot to '' @ mxHost, errCode = None\<rparr>
          \<and> storeAfter r = moment)
       \<and> (\<forall>ms\<in>set (sleptFor r). 0 < ms)
       \<and> startTime + sum_list (sleptFor r) \<le> returnedAt r"
proof -
  obtain ok t sl st2 where w:
    "waitLoop cfg startTime late ref others 0 startTime [] st1 = (ok, t, sl, st2)"
    by (metis prod_cases4)
  from waitLoop_result[OF w] have
    step: "if ok then acquireCheck cfg startTime t (objects st2 ref) (globalConcurrency st2) = Acquire
           else acquireCheck cfg startTime t (objects st2 ref) (globalConcurrency st2) = TimedOut"
    and sl: "\<forall>ms\<in>set sl. 0 < ms" "startTime + sum_list sl \<le> t"
    and st2: "st2 = runSteps (concat (take (length sl) others)) st1"
    by auto
  note r = acquireSlot_unfold[OF create w, unfolded run]
  from r have f: "returnedAt r = t" "sleptFor r = sl" "storeBefore r = st2"
    by (cases ok; simp)+
  from f moment have m: "moment = st2" by simp
  have p1: "moment = runSteps (concat (take (length (sleptFor r)) others)) st1"
    using m st2 f by simp
  have p2: "StepClearAll \<notin> set (concat (take (length (sleptFor r)) others)) \<longrightarrow>
            mxStates moment (toLowerCase mxHost) = Some state"
  proof
    assume "StepClearAll \<notin> set (concat (take (length (sleptFor r)) others))"
    from runSteps_keeps_reference[OF this getOrCreateState_reference[OF create]]
    show "mxStates moment (toLowerCase mxHost) = Some state"
      unfolding p1[symmetric] by (simp add: mxStates_def state)
  qed
  have p3: "(\<forall>ms\<in>set (sleptFor r). 0 < ms) \<and> startTime + sum_list (sleptFor r) \<le> returnedAt r"
    using sl f by simp
  show ?thesis
  proof (cases ok)
    case True
    with step have "acquireCheck cfg startTime t (objects st2 ref) (globalConcurrency st2) = Acquire"
      by simp
    from acquireCheck_Acquire[OF this]
    have c: "\<not> penaltyActive state t" "\<not> intervalNotMet state (perDomainMinIntervalMs cfg) t"
      "globalConcurrency moment < maxGlobalConcurrency cfg"
      "concurrency state < maxConcurrency state" "t - startTime \<le> 60000"
      by (simp_all add: m state maxWaitTime_def)
    from True r have g: "thrown r = None" "storeAfter r = grant ref t moment"
      by (simp_all add: m)
    have p4: "(\<forall>p. penaltyUntil state = Some p \<and> p \<noteq> 0 \<longrightarrow> p \<le> returnedAt r)
          \<and> (\<forall>l. lastAttemptAt state = Some l \<and> l \<noteq> 0 \<longrightarrow>
                 perDomainMinIntervalMs cfg \<le> returnedAt r - l)"
      using c(1,2) f(1) by (auto dest: penalty_over interval_elapsed)
    have p5: "globalConcurrency (storeAfter r) = globalConcurrency moment + 1
          \<and> objects (storeAfter r) ref =
              state\<lparr>concurrency := concurrency state + 1,
                    totalAttempts := totalAttempts state + 1,
                    lastAttemptAt := Some (returnedAt r)\<rparr>"
      using g(2) f(1) by (simp add: grant_def state)
    from p1 p2 p3 p4 p5 c g f(1) show ?thesis
      by simp
  next
    case False
    with step have "acquireCheck cfg startTime t (objects st2 ref) (globalConcurrency st2) = TimedOut"
      by simp
    from acquireCheck_TimedOut[OF this] have late: "60000 < t - startTime"
      by (simp add: maxWaitTime_def)
    from False r have g: "thrown r = Some \<lparr>message = ''Timeout waiting for slot to '' @ mxHost,
        errCode = None\<rparr>" "storeAfter r = moment"
      by (simp_all add: m)
    from p1 p2 p3 late g f(1) show ?thesis
      by simp
  qed
qed

text \<open>
  The theorem on a host that is at its ceiling on entry, at instant 5000. The first pass
  sleeps 500 ms; another caller releases its slot meanwhile; the second pass, at 5500,
  finds one connection in flight and acquires. With nobody releasing, the same call
  sleeps until its wait is over and throws.
\<close>

theorem acquireSlot_gate_witness:
  "(let r = acquireSlot ''MX1.example.com'' exampleThrottleConfig 5000 (\<lambda>k. 0)
              [[StepRelease ''mx1.example.com'']] busyStore
    in getOrCreateState ''MX1.example.com'' (maxMxConcurrency exampleThrottleConfig) busyStore
         = (0, busyStore)
       \<and> thrown r = None \<and> returnedAt r = 5500 \<and> sleptFor r = [500]
       \<and> storeBefore r = runSteps [StepRelease ''mx1.example.com''] busyStore
       \<and> mxStates (storeBefore r) (toLowerCase ''MX1.example.com'')
           = Some (objects (storeBefore r) 0)
       \<and> concurrency (objects (storeBefore r) 0) = 1
       \<and> concurrency (objects (storeBefore r) 0) < maxConcurrency (objects (storeBefore r) 0)
       \<and> globalConcurrency (storeBefore r) < maxGlobalConcurrency exampleThrottleConfig
       \<and> concurrency (objects (storeAfter r) 0) = 2
       \<and> globalConcurrency (storeAfter r) = 2
       \<and> thrown (acquireSlot ''MX1.example.com'' exampleThrottleConfig 5000 (\<lambda>k. 0) []
                   busyStore) \<noteq> None)"
proof -
  let ?r = "acquireSlot ''MX1.example.com'' exampleThrottleConfig 5000 (\<lambda>k. 0)
              [[StepRelease ''mx1.example.com'']] busyStore"
  have lower: "toLowerCase ''MX1.example.com'' = ''mx1.example.com''"
    by code_simp
  have create: "getOrCreateState ''MX1.example.com'' (maxMxConcurrency exampleThrottleConfig)
      busyStore = (0, busyStore)"
    by (simp add: getOrCreateState_def lower busyStore_def)
  have run: "thrown ?r = None" "returnedAt ?r = 5500" "sleptFor ?r = [500]"
    "concurrency (objects (storeBefore ?r) 0) = 1"
    by code_simp+
  have alone: "thrown (acquireSlot ''MX1.example.com'' exampleThrottleConfig 5000 (\<lambda>k. 0) []
                   busyStore) \<noteq> None"
    by code_simp
  note t = acquireSlot_gate[OF create refl refl refl, of 5000 "\<lambda>k. 0"
      "[[StepRelease ''mx1.example.com'']]"]
  have steps: "concat (take (length (sleptFor ?r)) [[StepRelease ''mx1.example.com'']])
      = [StepRelease ''mx1.example.com'']"
    by (simp add: run(3))
  from t have "storeBefore ?r
      = runSteps (concat (take (length (sleptFor ?r)) [[StepRelease ''mx1.example.com'']]))
          busyStore"
    by blast
  then have a: "storeBefore ?r = runSteps [StepRelease ''mx1.example.com''] busyStore"
    by (simp only: steps)
  from t have "StepClearAll \<notin> set (concat (take (length (sleptFor ?r))
        [[StepRelease ''mx1.example.com'']])) \<longrightarrow>
      mxStates (storeBefore ?r) (toLowerCase ''MX1.example.com'')
        = Some (objects (storeBefore ?r) 0)"
    by blast
  then have b: "mxStates (storeBefore ?r) (toLowerCase ''MX1.example.com'')
           = Some (objects (storeBefore ?r) 0)"
    by (simp only: steps) simp
  from t run(1) have c:
    "concurrency (objects (storeBefore ?r) 0) < maxConcurrency (objects (storeBefore ?r) 0)"
    "globalConcurrency (storeBefore ?r) < maxGlobalConcurrency exampleThrottleConfig"
    "globalConcurrency (storeAfter ?r) = globalConcurrency (storeBefore ?r) + 1"
    "objects (storeAfter ?r) 0 =
       (objects (storeBefore ?r) 0)\<lparr>concurrency := concurrency (objects (storeBefore ?r) 0) + 1,
          totalAttempts := totalAttempts (objects (storeBefore ?r) 0) + 1,
          lastAttemptAt := Some (returnedAt ?r)\<rparr>"
    by blast+
  have d: "globalConcurrency (runSteps [StepRelease ''mx1.example.com''] busyStore) = 1"
    by code_simp
  from c(3) a d have e: "globalConcurrency (storeAfter ?r) = 2"
    by simp
  from c(4) run(4) have f: "concurrency (objects (storeAfter ?r) 0) = 2"
    by simp
  show ?thesis
    unfolding Let_def
    by (intro conjI) (rule create run a b c e f alone)+
qed

section \<open>Counters and the adaptive ceiling\<close>

lemma storeInv_object:
  "storeInv st \<Longrightarrow> ref < allocated st \<longrightarrow> hostInv s' \<Longrightarrow> 0 \<le> g \<Longrightarrow>
   storeInv (st\<lparr>objects := (objects st)(ref := s'), globalConcurrency := g\<rparr>)"
  by (simp add: storeInv_def)

lemma storeInv_object_only:
  "storeInv st \<Longrightarrow> ref < allocated st \<longrightarrow> hostInv s' \<Longrightarrow>
   storeInv (st\<lparr>objects := (objects st)(ref := s')\<rparr>)"
  by (simp add: storeInv_def)

lemma storeInv_referenced:
  "storeInv st \<Longrightarrow> references st h = Some ref \<Longrightarrow> hostInv (objects st ref)"
  by (auto simp: storeInv_def)

lemma storeInv_host: "storeInv st \<Longrightarrow> mxStates st h = Some s \<Longrightarrow> hostInv s"
  by (auto simp: mxStates_def storeInv_referenced)

lemma storeInv_allocated: "storeInv st \<Longrightarrow> ref < allocated st \<Longrightarrow> hostInv (objects st ref)"
  by (simp add: storeInv_def)

lemma storeInv_global: "storeInv st \<Longrightarrow> 0 \<le> globalConcurrency st"
  by (simp add: storeInv_def)

lemma newState_inv: "1 \<le> maxMx \<Longrightarrow> hostInv (newState h maxMx)"
  by (simp add: newState_def hostInv_def hardCeiling_def)

lemma getOrCreateState_inv:
  assumes "storeInv st" "1 \<le> maxMx"
  shows "storeInv (snd (getOrCreateState mxHost maxMx st))"
proof (cases "references st (toLowerCase mxHost)")
  case None
  have "storeInv (st\<lparr>objects := (objects st)(allocated st := newState (toLowerCase mxHost) maxMx),
             allocated := Suc (allocated st),
             references := (references st)(toLowerCase mxHost \<mapsto> allocated st)\<rparr>)"
    using assms(1) newState_inv[OF assms(2)]
    by (auto simp: storeInv_def less_Suc_eq)
  with None show ?thesis
    by (simp add: getOrCreateState_def Let_def)
next
  case (Some ref)
  with assms(1) show ?thesis
    by (simp add: getOrCreateState_def Let_def)
qed

lemma grant_inv: "storeInv st \<Longrightarrow> storeInv (grant ref now st)"
proof -
  assume inv: "storeInv st"
  have h: "ref < allocated st \<longrightarrow>
      hostInv ((objects st ref)\<lparr>concurrency := concurrency (objects st ref) + 1,
                             totalAttempts := totalAttempts (objects st ref) + 1,
                             lastAttemptAt := Some now\<rparr>)"
    using storeInv_allocated[OF inv, of ref] by (simp add: hostInv_def)
  from storeInv_global[OF inv] have g: "0 \<le> globalConcurrency st + 1" by simp
  from storeInv_object[OF inv h g] show ?thesis
    by (simp add: grant_def)
qed

lemma releaseSlot_inv: "storeInv st \<Longrightarrow> storeInv (releaseSlot mxHost st)"
proof (cases "references st (toLowerCase mxHost)")
  case None
  assume "storeInv st"
  with None show ?thesis by (simp add: releaseSlot_def)
next
  case (Some ref)
  assume inv: "storeInv st"
  from storeInv_referenced[OF inv Some]
  have "ref < allocated st \<longrightarrow>
      hostInv ((objects st ref)\<lparr>concurrency := max 0 (concurrency (objects st ref) - 1)\<rparr>)"
    by (simp add: hostInv_def)
  from storeInv_object[OF inv this, of "max 0 (globalConcurrency st - 1)"] Some
  show ?thesis by (simp add: releaseSlot_def)
qed

lemma successUpdate_inv: "hostInv s \<Longrightarrow> hostInv (successUpdate s)"
  by (simp add: successUpdate_def hostInv_def Let_def)

lemma failureUpdate_inv: "hostInv s \<Longrightarrow> hostInv (failureUpdate p now s)"
  by (simp add: failureUpdate_def hostInv_def Let_def)

lemma recordSuccess_inv: "storeInv st \<Longrightarrow> storeInv (recordSuccess mxHost st)"
proof (cases "references st (toLowerCase mxHost)")
  case None
  assume "storeInv st"
  with None show ?thesis by (simp add: recordSuccess_def)
next
  case (Some ref)
  assume inv: "storeInv st"
  from successUpdate_inv[OF storeInv_referenced[OF inv Some]]
  have "ref < allocated st \<longrightarrow> hostInv (successUpdate (objects st ref))" by simp
  from storeInv_object_only[OF inv this] Some
  show ?thesis by (simp add: recordSuccess_def)
qed

lemma recordFailure_inv: "storeInv st \<Longrightarrow> storeInv (recordFailure mxHost p now st)"
proof (cases "references st (toLowerCase mxHost)")
  case None
  assume "storeInv st"
  with None show ?thesis by (simp add: recordFailure_def)
next
  case (Some ref)
  assume inv: "storeInv st"
  from failureUpdate_inv[OF storeInv_referenced[OF inv Some]]
  have "ref < allocated st \<longrightarrow> hostInv (failureUpdate p now (objects st ref))" by simp
  from storeInv_object_only[OF inv this] Some
  show ?thesis by (simp add: recordFailure_def)
qed

lemma clearAll_inv: "storeInv st \<Longrightarrow> storeInv (clearAll st)"
  by (simp add: clearAll_def storeInv_def)

lemma applyStep_inv:
  "storeInv st \<Longrightarrow> stepCeilingOk action \<Longrightarrow> storeInv (applyStep action st)"
  by (cases action)
     (simp_all add: getOrCreateState_inv grant_inv releaseSlot_inv recordSuccess_inv
        recordFailure_inv clearAll_inv split: AcquireStep.splits)

lemma runSteps_inv:
  "storeInv st \<Longrightarrow> list_all stepCeilingOk steps \<Longrightarrow> storeInv (runSteps steps st)"
  by (induction steps arbitrary: st) (simp_all add: applyStep_inv)

lemma acquireSlot_inv:
  assumes "storeInv st" "1 \<le> maxMxConcurrency cfg" "list_all (list_all stepCeilingOk) others"
  shows "storeInv (storeAfter (acquireSlot mxHost cfg startTime late others st))"
proof -
  obtain ref st1 where c: "getOrCreateState mxHost (maxMxConcurrency cfg) st = (ref, st1)"
    by (cases "getOrCreateState mxHost (maxMxConcurrency cfg) st")
  from getOrCreateState_inv[OF assms(1,2), of mxHost] c
  have i: "storeInv st1" by simp
  obtain ok t sl st2 where w:
    "waitLoop cfg startTime late ref others 0 startTime [] st1 = (ok, t, sl, st2)"
    by (metis prod_cases4)
  from waitLoop_result[OF w]
  have "st2 = runSteps (concat (take (length sl) others)) st1"
    by auto
  moreover from assms(3) have "list_all stepCeilingOk (concat (take (length sl) others))"
    by (auto simp: list_all_iff dest: in_set_takeD)
  ultimately have i2: "storeInv st2"
    using runSteps_inv[OF i] by simp
  from acquireSlot_unfold[OF c w] i2 grant_inv[OF i2] show ?thesis
    by (cases ok) simp_all
qed

lemma applyOp_inv: "storeInv st \<Longrightarrow> ceilingOk op \<Longrightarrow> storeInv (applyOp op st)"
proof (cases op)
  case (OpAcquire h cfg t l others)
  assume "storeInv st" "ceilingOk op"
  with OpAcquire show ?thesis by (simp add: acquireSlot_inv)
next
  case (OpGetState h)
  assume "storeInv st" "ceilingOk op"
  from getOrCreateState_inv[OF \<open>storeInv st\<close>, of 2 h] OpGetState show ?thesis
    by (simp add: getState_def split_beta Let_def)
next
  case OpClearAll
  assume "storeInv st"
  with OpClearAll show ?thesis by (simp add: clearAll_inv)
qed (simp_all add: releaseSlot_inv recordSuccess_inv recordFailure_inv)

lemma runOps_inv:
  "storeInv st \<Longrightarrow> \<forall>op\<in>set ops. ceilingOk op \<Longrightarrow> storeInv (runOps ops st)"
  by (induction ops arbitrary: st) (simp_all add: applyOp_inv)

lemma emptyStore_inv: "storeInv emptyStore"
  by (simp add: storeInv_def emptyStore_def)

lemma releaseSlot_unknown:
  "mxStates st (toLowerCase mxHost) = None \<Longrightarrow> releaseSlot mxHost st = st"
  by (simp add: releaseSlot_def mxStates_def)

lemma releaseSlot_known:
  "mxStates st (toLowerCase mxHost) = Some s \<Longrightarrow>
   globalConcurrency (releaseSlot mxHost st) = max 0 (globalConcurrency st - 1)
   \<and> mxStates (releaseSlot mxHost st) (toLowerCase mxHost)
       = Some (s\<lparr>concurrency := max 0 (concurrency s - 1)\<rparr>)"
  by (auto simp: releaseSlot_def mxStates_def)

text \<open>
  Claim C5. Start from a store that satisfies the invariant (the empty store does) and
  run any sequence of \<open>acquireSlot\<close>, \<open>releaseSlot\<close>, \<open>recordSuccess\<close>,
  \<open>recordFailure\<close>, \<open>getState\<close> and \<open>clearAll\<close> calls, each \<open>acquireSlot\<close> with
  whatever other callers do during its sleeps, in which every \<open>acquireSlot\<close> is
  configured with a per-host ceiling of at least 1. Then the global
  counter and every host's counter are not negative and every host's adaptive ceiling
  lies between 1 and the hard ceiling 5. \<open>releaseSlot\<close> leaves a store without the
  host exactly as it was, and on a known host it leaves both counters at 0 or above
  whatever they were, so a release without an acquisition cannot drive them negative.
\<close>

theorem throttle_counters_bounded:
  "(storeInv st \<and> (\<forall>op\<in>set ops. ceilingOk op) \<longrightarrow>
      0 \<le> globalConcurrency (runOps ops st)
      \<and> (\<forall>h s. mxStates (runOps ops st) h = Some s \<longrightarrow>
            0 \<le> concurrency s \<and> 1 \<le> maxConcurrency s \<and> maxConcurrency s \<le> hardCeiling))
   \<and> storeInv emptyStore
   \<and> (mxStates st (toLowerCase mxHost) = None \<longrightarrow> releaseSlot mxHost st = st)
   \<and> (\<forall>s. mxStates st (toLowerCase mxHost) = Some s \<longrightarrow>
         0 \<le> globalConcurrency (releaseSlot mxHost st)
         \<and> (\<exists>s'. mxStates (releaseSlot mxHost st) (toLowerCase mxHost) = Some s'
                \<and> 0 \<le> concurrency s' \<and> maxConcurrency s' = maxConcurrency s))"
proof -
  have a: "storeInv st \<and> (\<forall>op\<in>set ops. ceilingOk op) \<longrightarrow>
      0 \<le> globalConcurrency (runOps ops st)
      \<and> (\<forall>h s. mxStates (runOps ops st) h = Some s \<longrightarrow>
            0 \<le> concurrency s \<and> 1 \<le> maxConcurrency s \<and> maxConcurrency s \<le> hardCeiling)"
  proof (intro impI, elim conjE)
    assume i: "storeInv st" and o: "\<forall>op\<in>set ops. ceilingOk op"
    from runOps_inv[OF i o] have r: "storeInv (runOps ops st)" .
    have "\<And>h s. mxStates (runOps ops st) h = Some s \<Longrightarrow>
            0 \<le> concurrency s \<and> 1 \<le> maxConcurrency s \<and> maxConcurrency s \<le> hardCeiling"
      using storeInv_host[OF r] by (simp add: hostInv_def)
    with storeInv_global[OF r]
    show "0 \<le> globalConcurrency (runOps ops st)
      \<and> (\<forall>h s. mxStates (runOps ops st) h = Some s \<longrightarrow>
            0 \<le> concurrency s \<and> 1 \<le> maxConcurrency s \<and> maxConcurrency s \<le> hardCeiling)"
      by blast
  qed
  have b: "mxStates st (toLowerCase mxHost) = None \<longrightarrow> releaseSlot mxHost st = st"
    by (simp add: releaseSlot_unknown)
  have c: "\<forall>s. mxStates st (toLowerCase mxHost) = Some s \<longrightarrow>
         0 \<le> globalConcurrency (releaseSlot mxHost st)
         \<and> (\<exists>s'. mxStates (releaseSlot mxHost st) (toLowerCase mxHost) = Some s'
                \<and> 0 \<le> concurrency s' \<and> maxConcurrency s' = maxConcurrency s)"
    by (simp add: releaseSlot_known)
  show ?thesis
    apply (intro conjI)
       apply (rule a)
      apply (rule emptyStore_inv)
     apply (rule b)
    apply (rule c)
    done
qed

text \<open>
  The theorem on a run that releases a slot before any was acquired, acquires one while
  another caller enters and acquires for a second host, records a failure and releases
  twice; and \<open>releaseSlot\<close> alone on an unknown host and on a known host whose counters
  are already 0.
\<close>

theorem throttle_counters_bounded_witness:
  "(let cfg = \<lparr>maxGlobalConcurrency = 10, maxMxConcurrency = 1, perDomainMinIntervalMs = 1000\<rparr>;
        ops = [OpRelease ''mx1.example.com'',
               OpAcquire ''mx1.example.com'' cfg 5000 (\<lambda>k. 0)
                 [[StepCreate ''mx2.example.com'' 2, StepPass 1 cfg 5100 5100]],
               OpFailure ''mx1.example.com'' True 5200, OpRelease ''mx1.example.com'',
               OpRelease ''mx1.example.com'', OpSuccess ''mx1.example.com'']
    in storeInv emptyStore \<and> (\<forall>op\<in>set ops. ceilingOk op)
       \<and> 0 \<le> globalConcurrency (runOps ops emptyStore)
       \<and> (\<forall>h s. mxStates (runOps ops emptyStore) h = Some s \<longrightarrow>
             0 \<le> concurrency s \<and> 1 \<le> maxConcurrency s \<and> maxConcurrency s \<le> hardCeiling)
       \<and> mxStates emptyStore (toLowerCase ''ghost.example.com'') = None
       \<and> releaseSlot ''ghost.example.com'' emptyStore = emptyStore
       \<and> mxStates idleStore (toLowerCase ''mx1.example.com'') = Some idleHost
       \<and> 0 \<le> globalConcurrency (releaseSlot ''mx1.example.com'' idleStore)
       \<and> (\<exists>s'. mxStates (releaseSlot ''mx1.example.com'' idleStore)
                  (toLowerCase ''mx1.example.com'') = Some s' \<and> 0 \<le> concurrency s'))"
proof -
  let ?cfg = "\<lparr>maxGlobalConcurrency = 10, maxMxConcurrency = 1, perDomainMinIntervalMs = 1000\<rparr>"
  let ?ops = "[OpRelease ''mx1.example.com'',
               OpAcquire ''mx1.example.com'' ?cfg 5000 (\<lambda>k. 0)
                 [[StepCreate ''mx2.example.com'' 2, StepPass 1 ?cfg 5100 5100]],
               OpFailure ''mx1.example.com'' True 5200, OpRelease ''mx1.example.com'',
               OpRelease ''mx1.example.com'', OpSuccess ''mx1.example.com'']"
  have ok: "\<forall>op\<in>set ?ops. ceilingOk op"
    by simp
  have lower: "toLowerCase ''mx1.example.com'' = ''mx1.example.com''"
    by code_simp
  have known: "mxStates idleStore (toLowerCase ''mx1.example.com'') = Some idleHost"
    by (simp add: lower mxStates_def idleStore_def)
  have ghost: "mxStates emptyStore (toLowerCase ''ghost.example.com'') = None"
    by (simp add: emptyStore_def mxStates_def)
  from throttle_counters_bounded[of emptyStore ?ops "''ghost.example.com''"]
       throttle_counters_bounded[of idleStore "[]" "''mx1.example.com''"] ok known ghost
  show ?thesis
    unfolding Let_def by blast
qed

section \<open>Recording failures\<close>

lemma failureUpdate_fields:
  "failures (failureUpdate severe now s) = failures s + 1
   \<and> successCount (failureUpdate severe now s) = 0
   \<and> maxConcurrency (failureUpdate severe now s) =
       (if failures s + 1 > 3 \<and> maxConcurrency s > 1 then max 1 (maxConcurrency s - 1)
        else maxConcurrency s)
   \<and> penaltyUntil (failureUpdate severe now s) =
       (if severe then Some (now + min 300000 (5000 * 2 ^ (failures s + 1)))
        else penaltyUntil s)
   \<and> concurrency (failureUpdate severe now s) = concurrency s"
  by (simp add: failureUpdate_def penaltyMs_def Let_def)

lemma recordFailure_known:
  "mxStates st (toLowerCase mxHost) = Some s \<Longrightarrow>
   mxStates (recordFailure mxHost severe now st) (toLowerCase mxHost)
     = Some (failureUpdate severe now s)"
  by (auto simp: recordFailure_def mxStates_def)

lemma recordFailure_unknown:
  "mxStates st (toLowerCase mxHost) = None \<Longrightarrow> recordFailure mxHost severe now st = st"
  by (simp add: recordFailure_def mxStates_def)

lemma four_severe_failures:
  assumes "failures s = 0" "maxConcurrency s = 2"
  shows "maxConcurrency (failureUpdate True t4 (failureUpdate True t3
           (failureUpdate True t2 (failureUpdate True t1 s)))) = 1
       \<and> failures (failureUpdate True t4 (failureUpdate True t3
           (failureUpdate True t2 (failureUpdate True t1 s)))) = 4
       \<and> penaltyUntil (failureUpdate True t4 (failureUpdate True t3
           (failureUpdate True t2 (failureUpdate True t1 s)))) = Some (t4 + 80000)"
  using assms by (simp add: failureUpdate_fields)

text \<open>
  Claim C9, as amended. On a host the store holds a state for, \<open>recordFailure\<close> adds one
  to the failure counter and sets the success streak to 0; when the new failure count
  exceeds 3 and the adaptive ceiling is above 1 it lowers the ceiling by one, never below
  1; when the failure is severe it sets the penalty to end \<open>min(300000, 5000 * 2^failures)\<close>
  ms after the current instant, \<open>failures\<close> being the new count. On a host the store holds
  no state for, \<open>recordFailure\<close> returns at once and leaves the store as it was. A host
  with a state of ceiling 2 and no failures that then gets four severe failures in a row,
  at instants \<open>t1\<close> to \<open>t4\<close>, ends with ceiling 1 and a penalty that ends 80000 ms after
  \<open>t4\<close>, so is active at \<open>t4\<close> and for every instant before its end.
\<close>

theorem recordFailure_effect:
  "(mxStates st (toLowerCase mxHost) = None \<longrightarrow> recordFailure mxHost severe now st = st)
   \<and> (mxStates st (toLowerCase mxHost) = Some s \<longrightarrow>
      (\<exists>s'. mxStates (recordFailure mxHost severe now st) (toLowerCase mxHost) = Some s'
         \<and> failures s' = failures s + 1
         \<and> successCount s' = 0
         \<and> maxConcurrency s' =
             (if failures s + 1 > 3 \<and> maxConcurrency s > 1 then max 1 (maxConcurrency s - 1)
              else maxConcurrency s)
         \<and> (1 \<le> maxConcurrency s \<longrightarrow> 1 \<le> maxConcurrency s')
         \<and> penaltyUntil s' =
             (if severe then Some (now + min 300000 (5000 * 2 ^ (failures s + 1)))
              else penaltyUntil s)))
   \<and> (mxStates st (toLowerCase mxHost) = Some s \<and> failures s = 0 \<and> maxConcurrency s = 2
       \<and> 0 \<le> t4 \<longrightarrow>
      (\<exists>s'. mxStates (recordFailure mxHost True t4 (recordFailure mxHost True t3
                 (recordFailure mxHost True t2 (recordFailure mxHost True t1 st))))
               (toLowerCase mxHost) = Some s'
         \<and> maxConcurrency s' = 1 \<and> failures s' = 4
         \<and> penaltyUntil s' = Some (t4 + 80000) \<and> t4 < t4 + 80000
         \<and> (\<forall>t. t4 \<le> t \<and> t < t4 + 80000 \<longrightarrow> penaltyActive s' t)))"
proof (intro conjI impI)
  assume "mxStates st (toLowerCase mxHost) = None"
  then show "recordFailure mxHost severe now st = st"
    by (rule recordFailure_unknown)
next
  assume k: "mxStates st (toLowerCase mxHost) = Some s"
  from recordFailure_known[OF k] failureUpdate_fields[of severe now s]
  show "\<exists>s'. mxStates (recordFailure mxHost severe now st) (toLowerCase mxHost) = Some s'
         \<and> failures s' = failures s + 1
         \<and> successCount s' = 0
         \<and> maxConcurrency s' =
             (if failures s + 1 > 3 \<and> maxConcurrency s > 1 then max 1 (maxConcurrency s - 1)
              else maxConcurrency s)
         \<and> (1 \<le> maxConcurrency s \<longrightarrow> 1 \<le> maxConcurrency s')
         \<and> penaltyUntil s' =
             (if severe then Some (now + min 300000 (5000 * 2 ^ (failures s + 1)))
              else penaltyUntil s)"
    by auto
next
  assume a: "mxStates st (toLowerCase mxHost) = Some s \<and> failures s = 0
     \<and> maxConcurrency s = 2 \<and> 0 \<le> t4"
  let ?s4 = "failureUpdate True t4 (failureUpdate True t3
           (failureUpdate True t2 (failureUpdate True t1 s)))"
  from a have k: "mxStates st (toLowerCase mxHost) = Some s" by simp
  have m: "mxStates (recordFailure mxHost True t4 (recordFailure mxHost True t3
                 (recordFailure mxHost True t2 (recordFailure mxHost True t1 st))))
               (toLowerCase mxHost) = Some ?s4"
    by (intro recordFailure_known k)
  from a four_severe_failures[of s t4 t3 t2 t1]
  have f: "maxConcurrency ?s4 = 1" "failures ?s4 = 4" "penaltyUntil ?s4 = Some (t4 + 80000)"
    by simp_all
  from f(3) a have p: "\<forall>t. t4 \<le> t \<and> t < t4 + 80000 \<longrightarrow> penaltyActive ?s4 t"
    by (simp add: penaltyActive_def)
  from m f p
  show "\<exists>s'. mxStates (recordFailure mxHost True t4 (recordFailure mxHost True t3
                 (recordFailure mxHost True t2 (recordFailure mxHost True t1 st))))
               (toLowerCase mxHost) = Some s'
         \<and> maxConcurrency s' = 1 \<and> failures s' = 4
         \<and> penaltyUntil s' = Some (t4 + 80000) \<and> t4 < t4 + 80000
         \<and> (\<forall>t. t4 \<le> t \<and> t < t4 + 80000 \<longrightarrow> penaltyActive s' t)"
    by simp
qed

text \<open>
  The theorem on a host with a fresh state and four severe failures one second apart, and
  on a host the empty store holds no state for.
\<close>

theorem recordFailure_effect_witness:
  "mxStates idleStore (toLowerCase ''MX1.Example.com'') = Some idleHost
   \<and> failures idleHost = 0 \<and> maxConcurrency idleHost = 2 \<and> (0::int) \<le> 4000
   \<and> (\<exists>s'. mxStates (recordFailure ''MX1.Example.com'' True 4000
                (recordFailure ''MX1.Example.com'' True 3000
                (recordFailure ''MX1.Example.com'' True 2000
                (recordFailure ''MX1.Example.com'' True 1000 idleStore))))
              (toLowerCase ''MX1.Example.com'') = Some s'
          \<and> maxConcurrency s' = 1 \<and> failures s' = 4
          \<and> penaltyUntil s' = Some 84000)
   \<and> mxStates emptyStore (toLowerCase ''MX1.Example.com'') = None
   \<and> recordFailure ''MX1.Example.com'' True 1000 emptyStore = emptyStore"
proof -
  have lower: "toLowerCase ''MX1.Example.com'' = ''mx1.example.com''"
    by code_simp
  have known: "mxStates idleStore (toLowerCase ''MX1.Example.com'') = Some idleHost"
    by (simp add: lower mxStates_def idleStore_def)
  have fresh: "failures idleHost = 0" "maxConcurrency idleHost = 2"
    by (simp_all add: idleHost_def newState_def)
  have pre: "mxStates idleStore (toLowerCase ''MX1.Example.com'') = Some idleHost
       \<and> failures idleHost = 0 \<and> maxConcurrency idleHost = 2 \<and> (0::int) \<le> 4000"
    using known fresh by simp
  have unknown: "mxStates emptyStore (toLowerCase ''MX1.Example.com'') = None"
    by (simp add: mxStates_def emptyStore_def)
  from recordFailure_effect[of idleStore "''MX1.Example.com''" True 1000 idleHost
      4000 3000 2000 1000] pre
  have "\<exists>s'. mxStates (recordFailure ''MX1.Example.com'' True 4000
                    (recordFailure ''MX1.Example.com'' True 3000
                    (recordFailure ''MX1.Example.com'' True 2000
                    (recordFailure ''MX1.Example.com'' True 1000 idleStore))))
                  (toLowerCase ''MX1.Example.com'') = Some s'
              \<and> maxConcurrency s' = 1 \<and> failures s' = 4
              \<and> penaltyUntil s' = Some 84000"
    by auto
  moreover from recordFailure_effect[of emptyStore "''MX1.Example.com''" True 1000] unknown
  have "recordFailure ''MX1.Example.com'' True 1000 emptyStore = emptyStore"
    by blast
  ultimately show ?thesis
    using pre unknown by blast
qed

text \<open>
  Claim C9 as first stated has \<open>recordFailure\<close> count the failure for every host. A host
  that was never passed to \<open>acquireSlot\<close> or \<open>getState\<close> has no state in the store, and
  four severe failures recorded for it leave no trace: the state \<open>getState\<close> then creates
  has no failures, the ceiling 2 and no penalty.
\<close>

theorem unknown_host_failure_counterexample:
  "recordFailure ''mx1.example.com'' True 1000 emptyStore = emptyStore
   \<and> failures (fst (getState ''mx1.example.com''
        (recordFailure ''mx1.example.com'' True 4000
        (recordFailure ''mx1.example.com'' True 3000
        (recordFailure ''mx1.example.com'' True 2000
        (recordFailure ''mx1.example.com'' True 1000 emptyStore)))))) = 0
   \<and> maxConcurrency (fst (getState ''mx1.example.com''
        (recordFailure ''mx1.example.com'' True 4000
        (recordFailure ''mx1.example.com'' True 3000
        (recordFailure ''mx1.example.com'' True 2000
        (recordFailure ''mx1.example.com'' True 1000 emptyStore)))))) = 2
   \<and> penaltyUntil (fst (getState ''mx1.example.com''
        (recordFailure ''mx1.example.com'' True 4000
        (recordFailure ''mx1.example.com'' True 3000
        (recordFailure ''mx1.example.com'' True 2000
        (recordFailure ''mx1.example.com'' True 1000 emptyStore)))))) = None"
proof -
  have u: "recordFailure ''mx1.example.com'' True t emptyStore = emptyStore" for t
    by (simp add: recordFailure_def emptyStore_def)
  show ?thesis
    unfolding u by (simp add: u getState_def getOrCreateState_def Let_def emptyStore_def
        newState_def)
qed

section \<open>What one attempt tells the throttle\<close>

lemma successUpdate_fields:
  "successCount (successUpdate s) = successCount s + 1
   \<and> failures (successUpdate s) = failures s - 1
   \<and> totalSuccesses (successUpdate s) = totalSuccesses s + 1
   \<and> penaltyUntil (successUpdate s) = penaltyUntil s
   \<and> concurrency (successUpdate s) = concurrency s"
  by (simp add: successUpdate_def Let_def)

lemma recordSuccess_known:
  "mxStates st (toLowerCase mxHost) = Some s \<Longrightarrow>
   mxStates (recordSuccess mxHost st) (toLowerCase mxHost) = Some (successUpdate s)"
  by (auto simp: recordSuccess_def mxStates_def)

lemma recordSuccess_global:
  "globalConcurrency (recordSuccess mxHost st) = globalConcurrency st"
  by (simp add: recordSuccess_def split: option.splits)

lemma recordFailure_global:
  "globalConcurrency (recordFailure mxHost b now st) = globalConcurrency st"
  by (simp add: recordFailure_def split: option.splits)

lemma acquireSlot_timeout_store:
  "thrown (acquireSlot mxHost cfg startTime late others st) \<noteq> None \<Longrightarrow>
   storeAfter (acquireSlot mxHost cfg startTime late others st)
     = storeBefore (acquireSlot mxHost cfg startTime late others st)"
proof -
  obtain ref st1 where c: "getOrCreateState mxHost (maxMxConcurrency cfg) st = (ref, st1)"
    by (cases "getOrCreateState mxHost (maxMxConcurrency cfg) st")
  obtain ok t sl st2 where w:
    "waitLoop cfg startTime late ref others 0 startTime [] st1 = (ok, t, sl, st2)"
    by (metis prod_cases4)
  assume "thrown (acquireSlot mxHost cfg startTime late others st) \<noteq> None"
  with acquireSlot_unfold[OF c w] show ?thesis
    by (cases ok) simp_all
qed

text \<open>
  Claim C10. \<open>a\<close> is the call of \<open>acquireSlot\<close> that \<open>validateSmtpSingle\<close> makes and
  \<open>held\<close> the store when the handshake has settled: what the acquisition left, after
  what the other callers did meanwhile. Once the slot is acquired,
  \<open>validateSmtpSingle\<close> calls \<open>recordSuccess\<close> (and never \<open>recordFailure\<close>) whenever the
  handshake resolves to a result, whatever its status; in particular for the results of a
  4xx or 5xx reply to RCPT, which are \<open>temporarily_unavailable\<close> and \<open>invalid\<close>: the store
  it leaves is \<open>held\<close> after \<open>recordSuccess\<close> and \<open>releaseSlot\<close>, so that the success
  streak of a host that \<open>held\<close> has a state for has gone up by one, its failure counter has
  decayed by one and its penalty is as it was. It calls \<open>recordFailure\<close> exactly when the
  handshake rejects (or the overall timeout does), with the hard-block flag of the error,
  and returns the error mapped to a result: the store it leaves is \<open>held\<close> after
  \<open>recordFailure\<close> and \<open>releaseSlot\<close>, so that the host's failure counter has gone up by
  one, its success streak is 0, and a penalty is set when the error is a hard block. In
  both cases the slot is released. When the slot is not acquired the error propagates,
  neither is called, nothing is released, and the store is as the last pass of the
  acquisition loop found it.
\<close>

theorem validateSmtpSingle_records:
  assumes run: "run = validateSmtpSingle mxHost cfg startTime late others raced duration
                        meanwhile st"
      and a: "a = acquireSlot mxHost (throttleConfigOf cfg) startTime late others st"
      and held: "held = runSteps meanwhile (storeAfter a)"
  shows "(thrown a = None \<longrightarrow>
          (\<forall>result. raced = Resolved result \<longrightarrow>
             returned run = Inr result
           \<and> throttleCalls run = [AcquireSlotCall mxHost, RecordSuccessCall mxHost,
                                   ReleaseSlotCall mxHost]
           \<and> storeAfterRun run = releaseSlot mxHost (recordSuccess mxHost held)
           \<and> (\<forall>s. mxStates held (toLowerCase mxHost) = Some s \<longrightarrow>
                (\<exists>s'. mxStates (storeAfterRun run) (toLowerCase mxHost) = Some s'
                  \<and> successCount s' = successCount s + 1
                  \<and> failures s' = failures s - 1
                  \<and> penaltyUntil s' = penaltyUntil s
                  \<and> concurrency s' = max 0 (concurrency s - 1))
                \<and> globalConcurrency (storeAfterRun run) = max 0 (globalConcurrency held - 1)))
        \<and> (\<forall>code line raw. raced = Resolved (interpretSmtpCode code line raw)
                \<and> 400 \<le> code \<and> code < 600 \<longrightarrow>
             (smtpStatus (interpretSmtpCode code line raw) = TemporarilyUnavailable
              \<or> smtpStatus (interpretSmtpCode code line raw) = Invalid)
           \<and> RecordSuccessCall mxHost \<in> set (throttleCalls run)
           \<and> (\<forall>b. RecordFailureCall mxHost b \<notin> set (throttleCalls run)))
        \<and> (\<forall>error. raced = Rejected error \<longrightarrow>
             returned run = Inr (mapErrorToResult error)
           \<and> throttleCalls run = [AcquireSlotCall mxHost,
                                   RecordFailureCall mxHost (isHardBlockError error),
                                   ReleaseSlotCall mxHost]
           \<and> storeAfterRun run =
               releaseSlot mxHost
                 (recordFailure mxHost (isHardBlockError error) (returnedAt a + int duration)
                    held)
           \<and> (\<forall>s. mxStates held (toLowerCase mxHost) = Some s \<longrightarrow>
                (\<exists>s'. mxStates (storeAfterRun run) (toLowerCase mxHost) = Some s'
                  \<and> failures s' = failures s + 1
                  \<and> successCount s' = 0
                  \<and> penaltyUntil s' =
                      (if isHardBlockError error
                       then Some (returnedAt a + int duration
                                  + min 300000 (5000 * 2 ^ (failures s + 1)))
                       else penaltyUntil s)
                  \<and> concurrency s' = max 0 (concurrency s - 1))
                \<and> globalConcurrency (storeAfterRun run) = max 0 (globalConcurrency held - 1))))
       \<and> (\<forall>b. RecordFailureCall mxHost b \<in> set (throttleCalls run) \<longrightarrow>
             thrown a = None
           \<and> (\<exists>error. raced = Rejected error \<and> b = isHardBlockError error))
       \<and> (\<forall>e. thrown a = Some e \<longrightarrow>
             returned run = Inl e \<and> throttleCalls run = [AcquireSlotCall mxHost]
           \<and> storeAfterRun run = storeBefore a)"
proof -
  have r: "run = (case thrown a of
           Some e \<Rightarrow>
             \<lparr>returned = Inl e, throttleCalls = [AcquireSlotCall mxHost],
              storeAfterRun = storeAfter a\<rparr>
         | None \<Rightarrow>
             (case raced of
                Resolved result \<Rightarrow>
                  \<lparr>returned = Inr result,
                   throttleCalls = [AcquireSlotCall mxHost, RecordSuccessCall mxHost,
                                    ReleaseSlotCall mxHost],
                   storeAfterRun = releaseSlot mxHost (recordSuccess mxHost held)\<rparr>
              | Rejected error \<Rightarrow>
                   \<lparr>returned = Inr (mapErrorToResult error),
                    throttleCalls = [AcquireSlotCall mxHost,
                                     RecordFailureCall mxHost (isHardBlockError error),
                                     ReleaseSlotCall mxHost],
                    storeAfterRun =
                      releaseSlot mxHost
                        (recordFailure mxHost (isHardBlockError error)
                           (returnedAt a + int duration) held)\<rparr>))"
    unfolding run validateSmtpSingle_def Let_def a held by (rule refl)
  have p1: "returned run = Inr result
           \<and> throttleCalls run = [AcquireSlotCall mxHost, RecordSuccessCall mxHost,
                                   ReleaseSlotCall mxHost]
           \<and> storeAfterRun run = releaseSlot mxHost (recordSuccess mxHost held)
           \<and> (\<forall>s. mxStates held (toLowerCase mxHost) = Some s \<longrightarrow>
                (\<exists>s'. mxStates (storeAfterRun run) (toLowerCase mxHost) = Some s'
                  \<and> successCount s' = successCount s + 1
                  \<and> failures s' = failures s - 1
                  \<and> penaltyUntil s' = penaltyUntil s
                  \<and> concurrency s' = max 0 (concurrency s - 1))
                \<and> globalConcurrency (storeAfterRun run) = max 0 (globalConcurrency held - 1))"
    if t: "thrown a = None" and rr: "raced = Resolved result" for result
  proof -
    from r t rr have s: "storeAfterRun run = releaseSlot mxHost (recordSuccess mxHost held)"
      by simp
    have "\<exists>s'. mxStates (storeAfterRun run) (toLowerCase mxHost) = Some s'
                  \<and> successCount s' = successCount s + 1
                  \<and> failures s' = failures s - 1
                  \<and> penaltyUntil s' = penaltyUntil s
                  \<and> concurrency s' = max 0 (concurrency s - 1)"
         "globalConcurrency (storeAfterRun run) = max 0 (globalConcurrency held - 1)"
      if k: "mxStates held (toLowerCase mxHost) = Some s" for s
      using releaseSlot_known[OF recordSuccess_known[OF k]] successUpdate_fields[of s]
      unfolding s by (simp_all add: recordSuccess_global)
    with r t rr s show ?thesis by simp
  qed
  have p2: "(smtpStatus (interpretSmtpCode code line raw) = TemporarilyUnavailable
              \<or> smtpStatus (interpretSmtpCode code line raw) = Invalid)
           \<and> RecordSuccessCall mxHost \<in> set (throttleCalls run)
           \<and> (\<forall>b. RecordFailureCall mxHost b \<notin> set (throttleCalls run))"
    if t: "thrown a = None" and rr: "raced = Resolved (interpretSmtpCode code line raw)"
      and c: "400 \<le> code \<and> code < 600" for code line raw
  proof -
    from c have "smtpStatus (interpretSmtpCode code line raw) = TemporarilyUnavailable
              \<or> smtpStatus (interpretSmtpCode code line raw) = Invalid"
      by (cases "code < 500") (simp_all add: interpret_4xx interpret_5xx)
    with r t rr show ?thesis by simp
  qed
  have p3: "returned run = Inr (mapErrorToResult error)
           \<and> throttleCalls run = [AcquireSlotCall mxHost,
                                   RecordFailureCall mxHost (isHardBlockError error),
                                   ReleaseSlotCall mxHost]
           \<and> storeAfterRun run =
               releaseSlot mxHost
                 (recordFailure mxHost (isHardBlockError error) (returnedAt a + int duration)
                    held)
           \<and> (\<forall>s. mxStates held (toLowerCase mxHost) = Some s \<longrightarrow>
                (\<exists>s'. mxStates (storeAfterRun run) (toLowerCase mxHost) = Some s'
                  \<and> failures s' = failures s + 1
                  \<and> successCount s' = 0
                  \<and> penaltyUntil s' =
                      (if isHardBlockError error
                       then Some (returnedAt a + int duration
                                  + min 300000 (5000 * 2 ^ (failures s + 1)))
                       else penaltyUntil s)
                  \<and> concurrency s' = max 0 (concurrency s - 1))
                \<and> globalConcurrency (storeAfterRun run) = max 0 (globalConcurrency held - 1))"
    if t: "thrown a = None" and rr: "raced = Rejected error" for error
  proof -
    from r t rr have s: "storeAfterRun run =
               releaseSlot mxHost
                 (recordFailure mxHost (isHardBlockError error) (returnedAt a + int duration)
                    held)"
      by simp
    have "\<exists>s'. mxStates (storeAfterRun run) (toLowerCase mxHost) = Some s'
                  \<and> failures s' = failures s + 1
                  \<and> successCount s' = 0
                  \<and> penaltyUntil s' =
                      (if isHardBlockError error
                       then Some (returnedAt a + int duration
                                  + min 300000 (5000 * 2 ^ (failures s + 1)))
                       else penaltyUntil s)
                  \<and> concurrency s' = max 0 (concurrency s - 1)"
         "globalConcurrency (storeAfterRun run) = max 0 (globalConcurrency held - 1)"
      if k: "mxStates held (toLowerCase mxHost) = Some s" for s
      using releaseSlot_known[OF recordFailure_known[OF k]]
        failureUpdate_fields[of "isHardBlockError error" "returnedAt a + int duration" s]
      unfolding s by (simp_all add: recordFailure_global)
    with r t rr s show ?thesis by simp
  qed
  have p4: "thrown a = None \<and> (\<exists>error. raced = Rejected error \<and> b = isHardBlockError error)"
    if "RecordFailureCall mxHost b \<in> set (throttleCalls run)" for b
    using r that by (cases "thrown a"; cases raced) auto
  have p5: "returned run = Inl e \<and> throttleCalls run = [AcquireSlotCall mxHost]
           \<and> storeAfterRun run = storeBefore a"
    if "thrown a = Some e" for e
    using r that acquireSlot_timeout_store[of mxHost "throttleConfigOf cfg" startTime late
        others st] unfolding a by simp
  from p1 p2 p3 p4 p5 show ?thesis
    by blast
qed

text \<open>
  The theorem on three attempts. A first attempt at a host whose reply to RCPT is
  \<open>550 5.1.1 No such user\<close>: the verdict is \<open>invalid\<close> and the throttle is told of a
  success. A first attempt at a host that rejects MAIL FROM naming a block list, 120 ms
  after the acquisition at instant 5000: the throttle is told of a severe failure and the
  penalty runs for 10000 ms from 5120. An attempt at a host that stays at its ceiling: the
  acquisition times out, and nothing is recorded or released.
\<close>

theorem validateSmtpSingle_records_witness:
  "(let rcpt = interpretSmtpCode 550 ''550 5.1.1 No such user'' ''raw'';
        a = acquireSlot ''mx1.example.com'' (throttleConfigOf defaultSmtpConfig) 5000
              (\<lambda>k. 0) [] emptyStore;
        accepted = validateSmtpSingle ''mx1.example.com'' defaultSmtpConfig 5000 (\<lambda>k. 0) []
                     (Resolved rcpt) 120 [] emptyStore;
        refused = validateSmtpSingle ''mx1.example.com'' defaultSmtpConfig 5000 (\<lambda>k. 0) []
                    (Rejected blockedError) 120 [] emptyStore;
        waiting = acquireSlot ''mx1.example.com'' (throttleConfigOf defaultSmtpConfig) 5000
                    (\<lambda>k. 0) [] busyStore;
        starved = validateSmtpSingle ''mx1.example.com'' defaultSmtpConfig 5000 (\<lambda>k. 0) []
                    (Resolved rcpt) 120 [] busyStore
    in thrown a = None
       \<and> smtpStatus rcpt = Invalid
       \<and> returned accepted = Inr rcpt
       \<and> throttleCalls accepted = [AcquireSlotCall ''mx1.example.com'',
             RecordSuccessCall ''mx1.example.com'', ReleaseSlotCall ''mx1.example.com'']
       \<and> map_option successCount (mxStates (storeAfterRun accepted) ''mx1.example.com'') = Some 1
       \<and> map_option failures (mxStates (storeAfterRun accepted) ''mx1.example.com'') = Some 0
       \<and> map_option concurrency (mxStates (storeAfterRun accepted) ''mx1.example.com'') = Some 0
       \<and> isHardBlockError blockedError
       \<and> returned refused = Inr (mapErrorToResult blockedError)
       \<and> throttleCalls refused = [AcquireSlotCall ''mx1.example.com'',
             RecordFailureCall ''mx1.example.com'' True, ReleaseSlotCall ''mx1.example.com'']
       \<and> storeAfterRun refused =
            releaseSlot ''mx1.example.com''
              (recordFailure ''mx1.example.com'' True 5120 (storeAfter a))
       \<and> map_option failures (mxStates (storeAfterRun refused) ''mx1.example.com'') = Some 1
       \<and> map_option successCount (mxStates (storeAfterRun refused) ''mx1.example.com'') = Some 0
       \<and> map_option penaltyUntil (mxStates (storeAfterRun refused) ''mx1.example.com'')
           = Some (Some 15120)
       \<and> map_option concurrency (mxStates (storeAfterRun refused) ''mx1.example.com'') = Some 0
       \<and> globalConcurrency (storeAfterRun refused) = 0
       \<and> thrown waiting \<noteq> None
       \<and> throttleCalls starved = [AcquireSlotCall ''mx1.example.com'']
       \<and> storeAfterRun starved = storeBefore waiting
       \<and> globalConcurrency (storeAfterRun starved) = 2)"
proof -
  let ?h = "''mx1.example.com''"
  let ?rcpt = "interpretSmtpCode 550 ''550 5.1.1 No such user'' ''raw''"
  let ?a = "acquireSlot ?h (throttleConfigOf defaultSmtpConfig) 5000 (\<lambda>k. 0) [] emptyStore"
  let ?accepted = "validateSmtpSingle ?h defaultSmtpConfig 5000 (\<lambda>k. 0) []
                     (Resolved ?rcpt) 120 [] emptyStore"
  let ?refused = "validateSmtpSingle ?h defaultSmtpConfig 5000 (\<lambda>k. 0) []
                    (Rejected blockedError) 120 [] emptyStore"
  let ?waiting = "acquireSlot ?h (throttleConfigOf defaultSmtpConfig) 5000 (\<lambda>k. 0) [] busyStore"
  let ?starved = "validateSmtpSingle ?h defaultSmtpConfig 5000 (\<lambda>k. 0) []
                    (Resolved ?rcpt) 120 [] busyStore"
  have acq: "thrown ?a = None" "returnedAt ?a = 5000"
    by code_simp+
  have inv: "smtpStatus ?rcpt = Invalid"
    by (simp add: interpret_5xx)
  have hard: "isHardBlockError blockedError"
    by code_simp
  have stuck: "thrown ?waiting \<noteq> None"
    by code_simp
  then obtain e where e: "thrown ?waiting = Some e"
    by blast
  have fields:
    "map_option successCount (mxStates (storeAfterRun ?accepted) ?h) = Some 1"
    "map_option failures (mxStates (storeAfterRun ?accepted) ?h) = Some 0"
    "map_option concurrency (mxStates (storeAfterRun ?accepted) ?h) = Some 0"
    "map_option failures (mxStates (storeAfterRun ?refused) ?h) = Some 1"
    "map_option successCount (mxStates (storeAfterRun ?refused) ?h) = Some 0"
    "map_option penaltyUntil (mxStates (storeAfterRun ?refused) ?h) = Some (Some 15120)"
    "map_option concurrency (mxStates (storeAfterRun ?refused) ?h) = Some 0"
    "globalConcurrency (storeAfterRun ?refused) = 0"
    "globalConcurrency (storeAfterRun ?starved) = 2"
    by code_simp+
  note t1 = validateSmtpSingle_records[OF refl refl refl, where mxHost = ?h
      and cfg = defaultSmtpConfig and startTime = 5000 and late = "\<lambda>k. 0" and others = "[]"
      and raced = "Resolved ?rcpt" and duration = 120 and meanwhile = "[]" and st = emptyStore]
  note t2 = validateSmtpSingle_records[OF refl refl refl, where mxHost = ?h
      and cfg = defaultSmtpConfig and startTime = 5000 and late = "\<lambda>k. 0" and others = "[]"
      and raced = "Rejected blockedError" and duration = 120 and meanwhile = "[]" and st = emptyStore]
  note t3 = validateSmtpSingle_records[OF refl refl refl, where mxHost = ?h
      and cfg = defaultSmtpConfig and startTime = 5000 and late = "\<lambda>k. 0" and others = "[]"
      and raced = "Resolved ?rcpt" and duration = 120 and meanwhile = "[]" and st = busyStore]
  from t1 acq(1) have r1: "returned ?accepted = Inr ?rcpt"
    "throttleCalls ?accepted = [AcquireSlotCall ?h, RecordSuccessCall ?h, ReleaseSlotCall ?h]"
    by blast+
  from t2 acq(1) have "returned ?refused = Inr (mapErrorToResult blockedError)
     \<and> throttleCalls ?refused = [AcquireSlotCall ?h,
           RecordFailureCall ?h (isHardBlockError blockedError), ReleaseSlotCall ?h]
     \<and> storeAfterRun ?refused =
          releaseSlot ?h (recordFailure ?h (isHardBlockError blockedError)
            (returnedAt ?a + int 120) (runSteps [] (storeAfter ?a)))"
    by blast
  with hard acq(2) have r2: "returned ?refused = Inr (mapErrorToResult blockedError)"
    "throttleCalls ?refused = [AcquireSlotCall ?h, RecordFailureCall ?h True, ReleaseSlotCall ?h]"
    "storeAfterRun ?refused = releaseSlot ?h (recordFailure ?h True 5120 (storeAfter ?a))"
    by simp_all
  from t3 e have r3: "throttleCalls ?starved = [AcquireSlotCall ?h]"
    "storeAfterRun ?starved = storeBefore ?waiting"
    by blast+
  show ?thesis
    unfolding Let_def
    by (intro conjI) (rule acq inv hard stuck fields r1 r2 r3)+
qed

section \<open>Retrying soft failures\<close>

lemma retryLoop_run:
  "attempt \<le> softRetryLimit cfg \<Longrightarrow>
   (let run = retryLoop cfg single attempt lastResult slept; n = callsMade run in
    attempt < n \<and> n \<le> softRetryLimit cfg + 1
    \<and> delays run = slept @ map (retryDelay cfg) [attempt..<n - 1]
    \<and> (\<forall>a. attempt \<le> a \<and> a < n - 1 \<longrightarrow> retriable (single a))
    \<and> surfaced cfg (n - 1) (single (n - 1)) (retryResult run))"
proof (induction cfg single attempt lastResult slept rule: retryLoop.induct)
  case (1 cfg single attempt lastResult slept)
  show ?case
  proof (cases "single attempt")
    case (Inl error)
    show ?thesis
    proof (cases "attempt < softRetryLimit cfg")
      case True
      let ?run = "retryLoop cfg single (attempt + 1) lastResult (slept @ [retryDelay cfg attempt])"
      have eq: "retryLoop cfg single attempt lastResult slept = ?run"
        using True Inl "1.prems" by (subst retryLoop.simps) simp
      from True have le: "attempt + 1 \<le> softRetryLimit cfg" by simp
      from "1.IH"(1)[OF "1.prems" Inl True le]
      have ih: "attempt + 1 < callsMade ?run" "callsMade ?run \<le> softRetryLimit cfg + 1"
        "delays ?run = (slept @ [retryDelay cfg attempt])
           @ map (retryDelay cfg) [attempt + 1..<callsMade ?run - 1]"
        "\<forall>a. attempt + 1 \<le> a \<and> a < callsMade ?run - 1 \<longrightarrow> retriable (single a)"
        "surfaced cfg (callsMade ?run - 1) (single (callsMade ?run - 1)) (retryResult ?run)"
        by (simp_all add: Let_def)
      from ih(1) have up: "[attempt..<callsMade ?run - 1]
           = attempt # [attempt + 1..<callsMade ?run - 1]"
        by (simp add: upt_conv_Cons)
      have r: "\<forall>a. attempt \<le> a \<and> a < callsMade ?run - 1 \<longrightarrow> retriable (single a)"
      proof (intro allI impI)
        fix a assume "attempt \<le> a \<and> a < callsMade ?run - 1"
        then show "retriable (single a)"
          using ih(4) Inl by (cases "a = attempt") (simp_all add: retriable_def)
      qed
      from ih up r show ?thesis
        unfolding eq Let_def by simp
    next
      case False
      with "1.prems" have lim: "attempt = softRetryLimit cfg" by simp
      have eq: "retryLoop cfg single attempt lastResult slept =
          \<lparr>retryResult =
             \<lparr>smtpStatus = Unknown, reasonCodes = [smtp_connection_failed, smtp_timeout],
              rawSmtpResponse = Some (message error)\<rparr>,
           callsMade = attempt + 1, delays = slept\<rparr>"
        using False Inl "1.prems" by (subst retryLoop.simps) simp
      show ?thesis
        unfolding eq Let_def using Inl lim by (auto simp: surfaced_def)
    qed
  next
    case (Inr result)
    show ?thesis
    proof (cases "definitive (smtpStatus result)")
      case True
      have eq: "retryLoop cfg single attempt lastResult slept =
          \<lparr>retryResult = result, callsMade = attempt + 1, delays = slept\<rparr>"
        using True Inr "1.prems" by (subst retryLoop.simps) simp
      show ?thesis
        unfolding eq Let_def using Inr True "1.prems" by (auto simp: surfaced_def)
    next
      case nd: False
      show ?thesis
      proof (cases "smtpStatus result = TemporarilyUnavailable \<and> attempt < softRetryLimit cfg")
        case True
        let ?run = "retryLoop cfg single (attempt + 1) (Some result)
                      (slept @ [retryDelay cfg attempt])"
        have eq: "retryLoop cfg single attempt lastResult slept = ?run"
          using True nd Inr "1.prems" by (subst retryLoop.simps) simp
        from True have le: "attempt + 1 \<le> softRetryLimit cfg" by simp
        from "1.IH"(2)[OF "1.prems" Inr nd True le]
        have ih: "attempt + 1 < callsMade ?run" "callsMade ?run \<le> softRetryLimit cfg + 1"
          "delays ?run = (slept @ [retryDelay cfg attempt])
             @ map (retryDelay cfg) [attempt + 1..<callsMade ?run - 1]"
          "\<forall>a. attempt + 1 \<le> a \<and> a < callsMade ?run - 1 \<longrightarrow> retriable (single a)"
          "surfaced cfg (callsMade ?run - 1) (single (callsMade ?run - 1)) (retryResult ?run)"
          by (simp_all add: Let_def)
        from ih(1) have up: "[attempt..<callsMade ?run - 1]
             = attempt # [attempt + 1..<callsMade ?run - 1]"
          by (simp add: upt_conv_Cons)
        have r: "\<forall>a. attempt \<le> a \<and> a < callsMade ?run - 1 \<longrightarrow> retriable (single a)"
        proof (intro allI impI)
          fix a assume "attempt \<le> a \<and> a < callsMade ?run - 1"
          then show "retriable (single a)"
            using ih(4) Inr True by (cases "a = attempt") (simp_all add: retriable_def)
        qed
        from ih up r show ?thesis
          unfolding eq Let_def by simp
      next
        case False
        with "1.prems" have lim: "smtpStatus result = TemporarilyUnavailable
            \<longrightarrow> attempt = softRetryLimit cfg"
          by auto
        have eq: "retryLoop cfg single attempt lastResult slept =
            \<lparr>retryResult = afterRetryLoop (Some result), callsMade = attempt + 1,
             delays = slept\<rparr>"
          using False nd Inr "1.prems" by (subst retryLoop.simps) auto
        show ?thesis
          unfolding eq Let_def using Inr nd lim "1.prems"
          by (auto simp: surfaced_def afterRetryLoop_def)
      qed
    qed
  qed
qed

text \<open>
  Claim C6, as amended. \<open>validateSmtpWithRetry\<close> calls \<open>validateSmtpSingle\<close> at least
  once and at most \<open>softRetryLimit + 1\<close> times, so it retries at most \<open>softRetryLimit\<close>
  times. It goes round again only after a \<open>temporarily_unavailable\<close> result or after an
  error thrown by the attempt (the slot could not be acquired), and the retry that
  follows the call at loop counter \<open>a\<close> is delayed by
  \<open>initialRetryDelayMs * retryBackoffFactor ^ a\<close>. A definitive result (\<open>valid\<close>,
  \<open>invalid\<close>, \<open>catch_all\<close>) is returned at once and unchanged. Any other result ends the
  loop too and is returned with \<open>smtp_soft_fails_exceeded\<close> appended: a
  \<open>temporarily_unavailable\<close> one only when the limit is reached, an \<open>unknown\<close> one (such
  as connection refused or reset) at once. An error thrown at the limit is returned as
  \<open>unknown\<close> with \<open>smtp_connection_failed\<close> and \<open>smtp_timeout\<close>.
\<close>

theorem validateSmtpWithRetry_bounded:
  "(let run = validateSmtpWithRetry cfg single; n = callsMade run in
    1 \<le> n \<and> n - 1 \<le> softRetryLimit cfg
    \<and> delays run =
        map (\<lambda>a. initialRetryDelayMs cfg * retryBackoffFactor cfg ^ a) [0..<n - 1]
    \<and> (\<forall>a. a < n - 1 \<longrightarrow> retriable (single a))
    \<and> surfaced cfg (n - 1) (single (n - 1)) (retryResult run)
    \<and> (\<forall>r. single 0 = Inr r \<and> smtpStatus r \<noteq> TemporarilyUnavailable \<longrightarrow>
          n = 1 \<and> delays run = []
          \<and> retryResult run =
              (if definitive (smtpStatus r) then r
               else r\<lparr>reasonCodes := reasonCodes r @ [smtp_soft_fails_exceeded]\<rparr>)))"
proof -
  let ?run = "validateSmtpWithRetry cfg single"
  let ?n = "callsMade ?run"
  from retryLoop_run[of 0 cfg single None "[]"]
  have a: "0 < ?n" "?n \<le> softRetryLimit cfg + 1"
    "delays ?run = map (retryDelay cfg) [0..<?n - 1]"
    "\<forall>a. a < ?n - 1 \<longrightarrow> retriable (single a)"
    "surfaced cfg (?n - 1) (single (?n - 1)) (retryResult ?run)"
    by (simp_all add: validateSmtpWithRetry_def Let_def)
  have d: "map (retryDelay cfg) [0..<?n - 1]
      = map (\<lambda>a. initialRetryDelayMs cfg * retryBackoffFactor cfg ^ a) [0..<?n - 1]"
    by (simp add: retryDelay_def)
  have h: "single 0 = Inr r \<and> smtpStatus r \<noteq> TemporarilyUnavailable \<longrightarrow>
          ?n = 1 \<and> delays ?run = []
          \<and> retryResult ?run =
              (if definitive (smtpStatus r) then r
               else r\<lparr>reasonCodes := reasonCodes r @ [smtp_soft_fails_exceeded]\<rparr>)" for r
  proof (intro impI)
    assume s: "single 0 = Inr r \<and> smtpStatus r \<noteq> TemporarilyUnavailable"
    then have "\<not> retriable (single 0)"
      by (simp add: retriable_def)
    with a(4) have "\<not> 0 < ?n - 1" by blast
    with a(1) have n1: "?n = 1" by simp
    from a(5) n1 s have "retryResult ?run =
              (if definitive (smtpStatus r) then r
               else r\<lparr>reasonCodes := reasonCodes r @ [smtp_soft_fails_exceeded]\<rparr>)"
      by (simp add: surfaced_def)
    with n1 a(3) show "?n = 1 \<and> delays ?run = []
          \<and> retryResult ?run =
              (if definitive (smtpStatus r) then r
               else r\<lparr>reasonCodes := reasonCodes r @ [smtp_soft_fails_exceeded]\<rparr>)"
      by simp
  qed
  have h': "\<forall>r. single 0 = Inr r \<and> smtpStatus r \<noteq> TemporarilyUnavailable \<longrightarrow>
          ?n = 1 \<and> delays ?run = []
          \<and> retryResult ?run =
              (if definitive (smtpStatus r) then r
               else r\<lparr>reasonCodes := reasonCodes r @ [smtp_soft_fails_exceeded]\<rparr>)"
    using h by blast
  from a(1) have a1: "1 \<le> ?n" by simp
  from a(2) have a2: "?n - 1 \<le> softRetryLimit cfg" by simp
  from a(3) d have a3: "delays ?run =
        map (\<lambda>a. initialRetryDelayMs cfg * retryBackoffFactor cfg ^ a) [0..<?n - 1]"
    by simp
  show ?thesis
    unfolding Let_def by (intro conjI) (rule a1 a2 a3 a(4) a(5) h')+
qed

text \<open>
  The theorem on a server that answers \<open>450 4.2.1 try later\<close> every time, under the
  default configuration (one retry, 2000 ms, factor 2): two calls, one delay of 2000 ms,
  and the greylisting result with the extra reason code.
\<close>

theorem validateSmtpWithRetry_bounded_witness:
  "(let run = validateSmtpWithRetry defaultSmtpConfig greylistedEveryTime in
    callsMade run = 2 \<and> callsMade run - 1 \<le> softRetryLimit defaultSmtpConfig
    \<and> delays run = [2000]
    \<and> retriable (greylistedEveryTime 0)
    \<and> reasonCodes (retryResult run) =
        [smtp_temporarily_unavailable, smtp_greylisted, smtp_soft_fails_exceeded])"
proof -
  let ?run = "validateSmtpWithRetry defaultSmtpConfig greylistedEveryTime"
  have lim: "softRetryLimit defaultSmtpConfig = 1"
    "initialRetryDelayMs defaultSmtpConfig = 2000" "retryBackoffFactor defaultSmtpConfig = 2"
    by (simp_all add: defaultSmtpConfig_def)
  have r: "retriable (greylistedEveryTime k)" for k
    by (simp add: retriable_def greylistedEveryTime_def)
  from validateSmtpWithRetry_bounded[of defaultSmtpConfig greylistedEveryTime]
  have t: "1 \<le> callsMade ?run" "callsMade ?run - 1 \<le> 1"
    "delays ?run = map (\<lambda>a. 2000 * 2 ^ a) [0..<callsMade ?run - 1]"
    "surfaced defaultSmtpConfig (callsMade ?run - 1)
       (greylistedEveryTime (callsMade ?run - 1)) (retryResult ?run)"
    by (simp_all add: Let_def lim)
  from t(4) have s: "callsMade ?run - 1 = 1
     \<and> retryResult ?run = \<lparr>smtpStatus = TemporarilyUnavailable,
          reasonCodes = [smtp_temporarily_unavailable, smtp_greylisted, smtp_soft_fails_exceeded],
          rawSmtpResponse = Some ''450 4.2.1 try later''\<rparr>"
    by (simp add: surfaced_def greylistedEveryTime_def definitive_def lim)
  with t(1) have n: "callsMade ?run = 2" by arith
  from n t(3) have "delays ?run = [2000]" by simp
  with n s r lim show ?thesis
    by (simp add: Let_def)
qed

text \<open>
  Claim C6 as first stated retries after \<open>temporarily_unavailable\<close> outcomes only. Here the
  first attempt throws because no slot could be acquired, no outcome is
  \<open>temporarily_unavailable\<close>, and the loop still sleeps 2000 ms and calls again.
\<close>

theorem retry_after_throw_counterexample:
  "slotTimeoutThenValid 0
     = Inl \<lparr>message = ''Timeout waiting for slot to mx1.example.com'', errCode = None\<rparr>
   \<and> callsMade (validateSmtpWithRetry defaultSmtpConfig slotTimeoutThenValid) = 2
   \<and> delays (validateSmtpWithRetry defaultSmtpConfig slotTimeoutThenValid) = [2000]
   \<and> smtpStatus (retryResult (validateSmtpWithRetry defaultSmtpConfig slotTimeoutThenValid))
       = Valid"
  by (simp add: validateSmtpWithRetry_def retryLoop.simps slotTimeoutThenValid_def
      defaultSmtpConfig_def definitive_def retryDelay_def)

section \<open>The order in which exchangers are tried\<close>

lemma findGroupEnd_group:
  "j \<le> m \<Longrightarrow> m < findGroupEnd sortedMx p j \<Longrightarrow> priority (sortedMx ! m) = p"
proof (induction sortedMx p j rule: findGroupEnd.induct)
  case (1 sortedMx currentPriority j)
  show ?case
  proof (cases "j < length sortedMx \<and> priority (sortedMx ! j) = currentPriority")
    case True
    then have eq: "findGroupEnd sortedMx currentPriority j
        = findGroupEnd sortedMx currentPriority (Suc j)"
      by (subst findGroupEnd.simps) simp
    show ?thesis
    proof (cases "m = j")
      case True
      with \<open>j < length sortedMx \<and> priority (sortedMx ! j) = currentPriority\<close>
      show ?thesis by simp
    next
      case False
      with "1.prems" have "Suc j \<le> m" by simp
      moreover from "1.prems" eq have "m < findGroupEnd sortedMx currentPriority (Suc j)"
        by simp
      ultimately show ?thesis
        using "1.IH"[OF True] by simp
    qed
  next
    case False
    then have "findGroupEnd sortedMx currentPriority j = j"
      by (subst findGroupEnd.simps) auto
    with "1.prems" show ?thesis by simp
  qed
qed

lemma swap_in_group:
  assumes "k < length xs" "r \<le> k" "priority (xs ! r) = priority (xs ! k)"
  shows "map priority (xs[k := xs ! r, r := xs ! k]) = map priority xs"
    and "mset (xs[k := xs ! r, r := xs ! k]) = mset xs"
proof -
  from assms(1,2) have r: "r < length xs" by simp
  have "map priority (xs[k := xs ! r, r := xs ! k])
      = (map priority xs)[k := priority (xs ! r), r := priority (xs ! k)]"
    by (simp add: map_update)
  also from assms r have "\<dots> = map priority xs"
    by (intro nth_equalityI) (auto simp: nth_list_update)
  finally show "map priority (xs[k := xs ! r, r := xs ! k]) = map priority xs" .
  from assms(1) r show "mset (xs[k := xs ! r, r := xs ! k]) = mset xs"
    by (simp add: mset_swap)
qed

lemma shuffleGroup_keeps:
  "k < length xs \<Longrightarrow> (\<forall>m. i \<le> m \<and> m \<le> k \<longrightarrow> priority (xs ! m) = p) \<Longrightarrow>
   map priority (fst (shuffleGroup rnd n i k xs)) = map priority xs
   \<and> mset (fst (shuffleGroup rnd n i k xs)) = mset xs"
proof (induction rnd n i k xs rule: shuffleGroup.induct)
  case (1 rnd n i k sortedMx)
  show ?case
  proof (cases "k > i")
    case True
    let ?r = "i + rnd n mod (k - i + 1)"
    let ?xs = "sortedMx[k := sortedMx ! ?r, ?r := sortedMx ! k]"
    from True have eq: "shuffleGroup rnd n i k sortedMx = shuffleGroup rnd (Suc n) i (k - 1) ?xs"
      by (subst shuffleGroup.simps) (simp add: Let_def)
    have "rnd n mod (k - i + 1) < k - i + 1"
      by (rule mod_less_divisor) simp
    with True have rk: "i \<le> ?r" "?r \<le> k" by linarith+
    with "1.prems"(2) True have pr: "priority (sortedMx ! ?r) = priority (sortedMx ! k)"
      by simp
    from swap_in_group[OF "1.prems"(1) rk(2) pr]
    have keep: "map priority ?xs = map priority sortedMx" "mset ?xs = mset sortedMx"
      by simp_all
    from "1.prems"(1) have len: "k - 1 < length ?xs" by simp
    have grp: "\<forall>m. i \<le> m \<and> m \<le> k - 1 \<longrightarrow> priority (?xs ! m) = p"
    proof (intro allI impI)
      fix m assume m: "i \<le> m \<and> m \<le> k - 1"
      with "1.prems"(1) have ml: "m < length sortedMx" by linarith
      then have "priority (?xs ! m) = map priority ?xs ! m" by simp
      also have "\<dots> = map priority sortedMx ! m" by (simp only: keep)
      also from ml have "\<dots> = priority (sortedMx ! m)" by simp
      also from m "1.prems"(2) have "\<dots> = p"
        by (metis diff_le_self le_trans)
      finally show "priority (?xs ! m) = p" .
    qed
    from "1.IH"[OF True refl len grp] keep eq show ?thesis
      by simp
  next
    case False
    then have "shuffleGroup rnd n i k sortedMx = (sortedMx, n)"
      by (subst shuffleGroup.simps) simp
    then show ?thesis by simp
  qed
qed

lemma shuffleSamePriority_keeps:
  "map priority (shuffleSamePriority rnd n i xs) = map priority xs
   \<and> mset (shuffleSamePriority rnd n i xs) = mset xs"
proof (induction rnd n i xs rule: shuffleSamePriority.induct)
  case (1 rnd n i sortedMx)
  show ?case
  proof (cases "i < length sortedMx")
    case True
    let ?p = "priority (sortedMx ! i)"
    let ?j = "findGroupEnd sortedMx ?p i"
    let ?sh = "shuffleGroup rnd n i (?j - 1) sortedMx"
    from True have eq: "shuffleSamePriority rnd n i sortedMx
        = shuffleSamePriority rnd (snd ?sh) ?j (fst ?sh)"
      by (subst shuffleSamePriority.simps) (simp add: Let_def)
    from True findGroupEnd_advances[of i sortedMx] have ij: "i < ?j" by simp
    from True findGroupEnd_bounds[of i sortedMx ?p] have jl: "?j \<le> length sortedMx" by simp
    from ij jl have k: "?j - 1 < length sortedMx" by simp
    have grp: "\<forall>m. i \<le> m \<and> m \<le> ?j - 1 \<longrightarrow> priority (sortedMx ! m) = ?p"
    proof (intro allI impI)
      fix m assume "i \<le> m \<and> m \<le> ?j - 1"
      with ij have "i \<le> m" "m < ?j" by linarith+
      then show "priority (sortedMx ! m) = ?p" by (rule findGroupEnd_group)
    qed
    from shuffleGroup_keeps[OF k grp, of rnd n]
    have keep: "map priority (fst ?sh) = map priority sortedMx" "mset (fst ?sh) = mset sortedMx"
      by simp_all
    from "1.IH"[OF True refl refl refl] keep eq show ?thesis
      by simp
  next
    case False
    then have "shuffleSamePriority rnd n i sortedMx = sortedMx"
      by (subst shuffleSamePriority.simps) simp
    then show ?thesis by simp
  qed
qed

lemma selectMx_prefix:
  "\<exists>perm. mset perm = mset recs
     \<and> map priority perm = map priority (sort_key priority recs)
     \<and> sorted (map priority perm)
     \<and> (\<not> randomizeSamePriority cfg \<longrightarrow> perm = sort_key priority recs)
     \<and> selectMx cfg rnd recs = take (maxMxAttempts cfg) perm"
proof -
  let ?sorted = "sort_key priority recs"
  let ?perm = "if randomizeSamePriority cfg then shuffleSamePriority rnd 0 0 ?sorted else ?sorted"
  from shuffleSamePriority_keeps[of rnd 0 0 ?sorted]
  have "mset ?perm = mset recs" "map priority ?perm = map priority ?sorted"
    by simp_all
  moreover have "sorted (map priority ?sorted)" by simp
  moreover have "selectMx cfg rnd recs = take (maxMxAttempts cfg) ?perm"
    by (simp add: selectMx_def Let_def)
  ultimately show ?thesis
    by (intro exI[of _ ?perm]) simp
qed

lemma exampleMx_first:
  assumes "mset perm = mset exampleMx"
      and "map priority perm = map priority (sort_key priority exampleMx)"
  shows "\<forall>mx\<in>set (take 2 perm). priority mx = 10 \<and> exchange mx \<noteq> ''mx3''"
    and "take 2 perm \<noteq> []"
proof -
  have s: "map priority (sort_key priority exampleMx) = [10, 10, 20]"
    by (simp add: exampleMx_def)
  with assms(2) have p: "map priority perm = [10, 10, 20]" by simp
  then obtain a b c where perm: "perm = [a, b, c]"
    "priority a = 10" "priority b = 10" "priority c = 20"
    by auto
  from assms(1) have "set perm = set exampleMx"
    by (rule mset_eq_setD)
  with perm have mem: "a \<in> set exampleMx" "b \<in> set exampleMx" by auto
  from mem perm(2,3) have "exchange a \<noteq> ''mx3''" "exchange b \<noteq> ''mx3''"
    by (auto simp: exampleMx_def)
  with perm show "\<forall>mx\<in>set (take 2 perm). priority mx = 10 \<and> exchange mx \<noteq> ''mx3''"
    by (simp add: numeral_2_eq_2)
  from perm show "take 2 perm \<noteq> []" by simp
qed
section \<open>Catch-all detection\<close>

lemma detectCatchAll_cases:
  "(detectCatchAll outcome = Yes \<longleftrightarrow> (\<exists>r. outcome = Inr r \<and> smtpStatus r = Valid))
   \<and> (detectCatchAll outcome = No \<longleftrightarrow> (\<exists>r. outcome = Inr r \<and> smtpStatus r = Invalid))
   \<and> ((\<forall>r. outcome = Inr r \<longrightarrow> smtpStatus r \<noteq> Valid \<and> smtpStatus r \<noteq> Invalid)
        \<longrightarrow> detectCatchAll outcome = Inconclusive)"
  by (cases outcome) (auto simp: detectCatchAll_def)

text \<open>The exchangers the loops do not skip.\<close>

lemma catchAllLoop_all_inconclusive:
  "(\<forall>k. k < length (filter (\<lambda>mx. exchange mx \<noteq> []) mxs)
        \<longrightarrow> detectCatchAll (net (n + k)) = Inconclusive) \<Longrightarrow>
   fst (catchAllLoop mxs net n Inconclusive calls) = Inconclusive"
proof (induction mxs arbitrary: n calls)
  case Nil
  show ?case by simp
next
  case (Cons mx rest)
  show ?case
  proof (cases "exchange mx = []")
    case True
    with Cons.prems Cons.IH[of n calls] show ?thesis by simp
  next
    case False
    with Cons.prems have first: "detectCatchAll (net n) = Inconclusive"
      by (auto dest: spec[of _ 0])
    have "\<forall>k. k < length (filter (\<lambda>mx. exchange mx \<noteq> []) rest)
        \<longrightarrow> detectCatchAll (net (Suc n + k)) = Inconclusive"
    proof (intro allI impI)
      fix k assume "k < length (filter (\<lambda>mx. exchange mx \<noteq> []) rest)"
      with False Cons.prems have "detectCatchAll (net (n + Suc k)) = Inconclusive"
        by (auto dest: spec[of _ "Suc k"])
      then show "detectCatchAll (net (Suc n + k)) = Inconclusive" by simp
    qed
    from Cons.IH[OF this] False first show ?thesis
      by (simp add: Let_def)
  qed
qed

lemma catchAllLoop_first_yes:
  "k < length (filter (\<lambda>mx. exchange mx \<noteq> []) mxs) \<Longrightarrow>
   (\<forall>j<k. detectCatchAll (net (n + j)) = Inconclusive) \<Longrightarrow>
   detectCatchAll (net (n + k)) = Yes \<Longrightarrow>
   fst (catchAllLoop mxs net n answer calls) = Yes"
proof (induction mxs arbitrary: n k answer calls)
  case Nil
  then show ?case by simp
next
  case (Cons mx rest)
  show ?case
  proof (cases "exchange mx = []")
    case True
    with Cons.prems Cons.IH[of k n answer calls] show ?thesis by simp
  next
    case False
    show ?thesis
    proof (cases k)
      case 0
      with Cons.prems False show ?thesis by (simp add: Let_def)
    next
      case (Suc k')
      with Cons.prems(2) have first: "detectCatchAll (net n) = Inconclusive"
        by (auto dest: spec[of _ 0])
      from Suc Cons.prems(1) False
      have a: "k' < length (filter (\<lambda>mx. exchange mx \<noteq> []) rest)" by simp
      have b: "\<forall>j<k'. detectCatchAll (net (Suc n + j)) = Inconclusive"
      proof (intro allI impI)
        fix j assume "j < k'"
        with Suc Cons.prems(2) have "detectCatchAll (net (n + Suc j)) = Inconclusive"
          by (auto dest: spec[of _ "Suc j"])
        then show "detectCatchAll (net (Suc n + j)) = Inconclusive" by simp
      qed
      from Suc Cons.prems(3) have c: "detectCatchAll (net (Suc n + k')) = Yes" by simp
      from Cons.IH[OF a b c] False first show ?thesis
        by (simp add: Let_def)
    qed
  qed
qed

lemma catchAllLoop_yes_source:
  "fst (catchAllLoop mxs net n answer calls) = Yes \<Longrightarrow> answer \<noteq> Yes \<Longrightarrow>
   \<exists>k. detectCatchAll (net k) = Yes"
proof (induction mxs arbitrary: n answer calls)
  case Nil
  then show ?case by simp
next
  case (Cons mx rest)
  show ?case
  proof (cases "exchange mx = []")
    case True
    with Cons.prems Cons.IH[of n answer calls] show ?thesis by simp
  next
    case False
    show ?thesis
    proof (cases "detectCatchAll (net n)")
      case Yes
      then show ?thesis by blast
    next
      case No
      with False Cons.prems show ?thesis by (simp add: Let_def)
    next
      case Inconclusive
      with False Cons.prems
      have "fst (catchAllLoop rest net (n + 1) Inconclusive
                   (calls @ [ProbeCall (exchange mx)])) = Yes"
        by (simp add: Let_def)
      from Cons.IH[OF this] show ?thesis by simp
    qed
  qed
qed

lemma catchAllLoop_calls:
  "(\<forall>h. AddressCall h \<notin> set calls) \<Longrightarrow>
   \<forall>h. AddressCall h \<notin> set (snd (snd (catchAllLoop mxs net n answer calls)))"
proof (induction mxs arbitrary: n answer calls)
  case Nil
  then show ?case by simp
next
  case (Cons mx rest)
  show ?case
  proof (cases "exchange mx = []")
    case True
    with Cons.prems Cons.IH[of calls n answer] show ?thesis by simp
  next
    case False
    from Cons.prems have c: "\<forall>h. AddressCall h \<notin> set (calls @ [ProbeCall (exchange mx)])"
      by simp
    from Cons.IH[OF c] c False show ?thesis
      by (simp add: Let_def)
  qed
qed

lemma validateSmtp_with_records:
  assumes "domainHasMx mxResult" "mxRecords mxResult = Some recs" "recs \<noteq> []"
  shows "attempted (validateSmtp cfg (Inr mxResult) rnd net) = selectMx cfg rnd recs"
    and "catchAllResult (validateSmtp cfg (Inr mxResult) rnd net)
         = fst (catchAllLoop (selectMx cfg rnd recs) net 0 Inconclusive [])"
    and "fst (catchAllLoop (selectMx cfg rnd recs) net 0 Inconclusive []) = Yes \<Longrightarrow>
         verdict (validateSmtp cfg (Inr mxResult) rnd net)
           = \<lparr>smtpStatus = CatchAll, reasonCodes = [smtp_catch_all],
              rawSmtpResponse = Some ''Domain accepts all email addresses (catch-all)''\<rparr>
         \<and> singleCalls (validateSmtp cfg (Inr mxResult) rnd net)
           = snd (snd (catchAllLoop (selectMx cfg rnd recs) net 0 Inconclusive []))"
  using assms by (simp_all add: validateSmtp_def Let_def split: option.splits)

lemma validateSmtp_without_records:
  "\<not> (\<exists>mxResult recs. mxLookup = Inr mxResult \<and> domainHasMx mxResult
        \<and> mxRecords mxResult = Some recs \<and> recs \<noteq> []) \<Longrightarrow>
   attempted (validateSmtp cfg mxLookup rnd net) = []
   \<and> catchAllResult (validateSmtp cfg mxLookup rnd net) = Inconclusive"
proof (cases mxLookup)
  case (Inl error)
  then show ?thesis by (simp add: validateSmtp_def)
next
  case (Inr mxResult)
  assume "\<not> (\<exists>mxResult recs. mxLookup = Inr mxResult \<and> domainHasMx mxResult
        \<and> mxRecords mxResult = Some recs \<and> recs \<noteq> [])"
  with Inr have "\<not> domainHasMx mxResult \<or> mxRecords mxResult = None
      \<or> the (mxRecords mxResult) = []"
    by (cases "mxRecords mxResult") auto
  with Inr show ?thesis
    by (simp add: validateSmtp_def)
qed

text \<open>
  Claim C2. \<open>detectCatchAll\<close> answers \<open>yes\<close> exactly when the probe address came back
  \<open>valid\<close> and \<open>no\<close> exactly when it came back \<open>invalid\<close>; every other outcome, a thrown
  error included, gives \<open>inconclusive\<close>. In \<open>validateSmtp\<close>, if the probe of every
  exchanger tried is inconclusive, \<open>catchAllResult\<close> is \<open>inconclusive\<close> in the end. If it
  is \<open>yes\<close>, some probe came back \<open>valid\<close>, the verdict is \<open>catch_all\<close> with reason
  \<open>smtp_catch_all\<close>, and no call was made for the real address. And it is \<open>yes\<close> as soon
  as one exchanger's probe is \<open>valid\<close> after only inconclusive ones.
\<close>

theorem catch_all_determination:
  "(detectCatchAll outcome = Yes \<longleftrightarrow> (\<exists>r. outcome = Inr r \<and> smtpStatus r = Valid))
   \<and> (detectCatchAll outcome = No \<longleftrightarrow> (\<exists>r. outcome = Inr r \<and> smtpStatus r = Invalid))
   \<and> ((\<forall>r. outcome = Inr r \<longrightarrow> smtpStatus r \<noteq> Valid \<and> smtpStatus r \<noteq> Invalid)
        \<longrightarrow> detectCatchAll outcome = Inconclusive)
   \<and> ((\<forall>k. k < length (filter (\<lambda>mx. exchange mx \<noteq> [])
                       (attempted (validateSmtp cfg mxLookup rnd net)))
          \<longrightarrow> detectCatchAll (net k) = Inconclusive)
        \<longrightarrow> catchAllResult (validateSmtp cfg mxLookup rnd net) = Inconclusive)
   \<and> (catchAllResult (validateSmtp cfg mxLookup rnd net) = Yes \<longrightarrow>
        smtpStatus (verdict (validateSmtp cfg mxLookup rnd net)) = CatchAll
        \<and> reasonCodes (verdict (validateSmtp cfg mxLookup rnd net)) = [smtp_catch_all]
        \<and> (\<forall>h. AddressCall h \<notin> set (singleCalls (validateSmtp cfg mxLookup rnd net)))
        \<and> (\<exists>k r. net k = Inr r \<and> smtpStatus r = Valid))
   \<and> ((\<exists>k. k < length (filter (\<lambda>mx. exchange mx \<noteq> [])
                       (attempted (validateSmtp cfg mxLookup rnd net)))
           \<and> (\<forall>j<k. detectCatchAll (net j) = Inconclusive)
           \<and> detectCatchAll (net k) = Yes)
        \<longrightarrow> catchAllResult (validateSmtp cfg mxLookup rnd net) = Yes)"
proof -
  let ?run = "validateSmtp cfg mxLookup rnd net"
  let ?hosts = "filter (\<lambda>mx. exchange mx \<noteq> []) (attempted ?run)"
  have p4: "(\<forall>k. k < length ?hosts \<longrightarrow> detectCatchAll (net k) = Inconclusive)
        \<longrightarrow> catchAllResult ?run = Inconclusive"
  proof (cases "\<exists>mxResult recs. mxLookup = Inr mxResult \<and> domainHasMx mxResult
        \<and> mxRecords mxResult = Some recs \<and> recs \<noteq> []")
    case True
    then obtain mxResult recs where m: "mxLookup = Inr mxResult" "domainHasMx mxResult"
      "mxRecords mxResult = Some recs" "recs \<noteq> []" by blast
    from validateSmtp_with_records(1,2)[OF m(2,3,4), of cfg rnd net] m(1)
      catchAllLoop_all_inconclusive[of "selectMx cfg rnd recs" net 0 "[]"]
    show ?thesis by simp
  next
    case False
    from validateSmtp_without_records[OF False] show ?thesis by simp
  qed
  have p5: "catchAllResult ?run = Yes \<longrightarrow>
        smtpStatus (verdict ?run) = CatchAll
        \<and> reasonCodes (verdict ?run) = [smtp_catch_all]
        \<and> (\<forall>h. AddressCall h \<notin> set (singleCalls ?run))
        \<and> (\<exists>k r. net k = Inr r \<and> smtpStatus r = Valid)"
  proof (cases "\<exists>mxResult recs. mxLookup = Inr mxResult \<and> domainHasMx mxResult
        \<and> mxRecords mxResult = Some recs \<and> recs \<noteq> []")
    case True
    then obtain mxResult recs where m: "mxLookup = Inr mxResult" "domainHasMx mxResult"
      "mxRecords mxResult = Some recs" "recs \<noteq> []" by blast
    let ?probe = "catchAllLoop (selectMx cfg rnd recs) net 0 Inconclusive []"
    show ?thesis
    proof (intro impI)
      assume "catchAllResult ?run = Yes"
      with validateSmtp_with_records(2)[OF m(2,3,4), of cfg rnd net] m(1)
      have y: "fst ?probe = Yes" by simp
      from validateSmtp_with_records(3)[OF m(2,3,4) y] m(1)
      have v: "verdict ?run = \<lparr>smtpStatus = CatchAll, reasonCodes = [smtp_catch_all],
              rawSmtpResponse = Some ''Domain accepts all email addresses (catch-all)''\<rparr>"
        "singleCalls ?run = snd (snd ?probe)" by simp_all
      from catchAllLoop_calls[of "[]" "selectMx cfg rnd recs" net 0 Inconclusive]
      have c: "\<forall>h. AddressCall h \<notin> set (snd (snd ?probe))" by simp
      from catchAllLoop_yes_source[OF y] obtain k where "detectCatchAll (net k) = Yes"
        by auto
      then have "\<exists>k r. net k = Inr r \<and> smtpStatus r = Valid"
        using detectCatchAll_cases[of "net k"] by blast
      with v c show "smtpStatus (verdict ?run) = CatchAll
        \<and> reasonCodes (verdict ?run) = [smtp_catch_all]
        \<and> (\<forall>h. AddressCall h \<notin> set (singleCalls ?run))
        \<and> (\<exists>k r. net k = Inr r \<and> smtpStatus r = Valid)"
        by simp
    qed
  next
    case False
    from validateSmtp_without_records[OF False] show ?thesis by simp
  qed
  have p6: "(\<exists>k. k < length ?hosts \<and> (\<forall>j<k. detectCatchAll (net j) = Inconclusive)
           \<and> detectCatchAll (net k) = Yes)
        \<longrightarrow> catchAllResult ?run = Yes"
  proof (cases "\<exists>mxResult recs. mxLookup = Inr mxResult \<and> domainHasMx mxResult
        \<and> mxRecords mxResult = Some recs \<and> recs \<noteq> []")
    case True
    then obtain mxResult recs where m: "mxLookup = Inr mxResult" "domainHasMx mxResult"
      "mxRecords mxResult = Some recs" "recs \<noteq> []" by blast
    show ?thesis
    proof (intro impI, elim exE conjE)
      fix k assume k: "k < length ?hosts" "\<forall>j<k. detectCatchAll (net j) = Inconclusive"
        "detectCatchAll (net k) = Yes"
      from k(1) validateSmtp_with_records(1)[OF m(2,3,4), of cfg rnd net] m(1)
      have "k < length (filter (\<lambda>mx. exchange mx \<noteq> []) (selectMx cfg rnd recs))" by simp
      from catchAllLoop_first_yes[OF this, of net 0 Inconclusive "[]"] k(2,3)
      have "fst (catchAllLoop (selectMx cfg rnd recs) net 0 Inconclusive []) = Yes" by simp
      with validateSmtp_with_records(2)[OF m(2,3,4), of cfg rnd net] m(1)
      show "catchAllResult ?run = Yes" by simp
    qed
  next
    case False
    from validateSmtp_without_records[OF False] show ?thesis by simp
  qed
  from detectCatchAll_cases[of outcome] p4 p5 p6 show ?thesis
    by (intro conjI) simp_all
qed

text \<open>
  The theorem on the three exchangers of the specification's example: when every server
  accepts every address the first probe says \<open>yes\<close> and the verdict is \<open>catch_all\<close>; when
  every server greylists, the determination stays \<open>inconclusive\<close>.
\<close>

theorem catch_all_determination_witness:
  "(let mx = Inr \<lparr>domainHasMx = True, mxRecords = Some exampleMx\<rparr>;
        accepted = validateSmtp defaultSmtpConfig mx (\<lambda>k. 0) acceptsEverything;
        greylisted = validateSmtp defaultSmtpConfig mx (\<lambda>k. 0) greylistedEveryTime
    in 0 < length (filter (\<lambda>mx. exchange mx \<noteq> []) (attempted accepted))
       \<and> detectCatchAll (acceptsEverything 0) = Yes
       \<and> catchAllResult accepted = Yes
       \<and> smtpStatus (verdict accepted) = CatchAll
       \<and> (\<forall>h. AddressCall h \<notin> set (singleCalls accepted))
       \<and> (\<forall>k. detectCatchAll (greylistedEveryTime k) = Inconclusive)
       \<and> catchAllResult greylisted = Inconclusive)"
proof -
  let ?mx = "Inr \<lparr>domainHasMx = True, mxRecords = Some exampleMx\<rparr> :: JsError + MxValidationResult"
  let ?accepted = "validateSmtp defaultSmtpConfig ?mx (\<lambda>k. 0) acceptsEverything"
  let ?greylisted = "validateSmtp defaultSmtpConfig ?mx (\<lambda>k. 0) greylistedEveryTime"
  have rec: "exampleMx \<noteq> []"
    by (simp add: exampleMx_def)
  have att: "attempted ?accepted = selectMx defaultSmtpConfig (\<lambda>k. 0) exampleMx"
    by (rule validateSmtp_with_records(1)) (simp_all add: rec)
  have sel: "selectMx defaultSmtpConfig (\<lambda>k. 0) exampleMx
      = [\<lparr>exchange = ''mx2'', priority = 10\<rparr>, \<lparr>exchange = ''mx1'', priority = 10\<rparr>]"
    by code_simp
  have h1: "0 < length (filter (\<lambda>mx. exchange mx \<noteq> []) (attempted ?accepted))"
    by (simp add: att sel)
  have h2: "detectCatchAll (acceptsEverything 0) = Yes"
    by (simp add: detectCatchAll_def acceptsEverything_def)
  have h3: "\<forall>k. detectCatchAll (greylistedEveryTime k) = Inconclusive"
    by (simp add: detectCatchAll_def greylistedEveryTime_def)
  from h1 h2 have pre: "\<exists>k. k < length (filter (\<lambda>mx. exchange mx \<noteq> []) (attempted ?accepted))
           \<and> (\<forall>j<k. detectCatchAll (acceptsEverything j) = Inconclusive)
           \<and> detectCatchAll (acceptsEverything k) = Yes"
    by (intro exI[of _ 0]) simp
  from catch_all_determination[of "acceptsEverything 0" defaultSmtpConfig ?mx "\<lambda>k. 0"
         acceptsEverything] pre
  have yes: "catchAllResult ?accepted = Yes" "smtpStatus (verdict ?accepted) = CatchAll"
    "\<forall>h. AddressCall h \<notin> set (singleCalls ?accepted)"
    by blast+
  from catch_all_determination[of "greylistedEveryTime 0" defaultSmtpConfig ?mx "\<lambda>k. 0"
         greylistedEveryTime] h3
  have inc: "catchAllResult ?greylisted = Inconclusive"
    by blast
  from h1 h2 h3 yes inc show ?thesis
    unfolding Let_def by blast
qed

section \<open>The attempted exchangers\<close>

text \<open>
  Claim C8. For a non-empty list of exchangers, the list \<open>mxToTry\<close> that \<open>validateSmtp\<close>
  works through has at most \<open>maxMxAttempts\<close> entries and is the prefix of that length of
  a permutation of the input whose priorities are in ascending order. The priorities of
  that permutation are, position by position, those of the plainly sorted list, with or
  without \<open>randomizeSamePriority\<close>, so the shuffle moves entries only among positions of
  equal priority; without it the permutation is the stable sort itself. For the exchangers
  mx1 and mx2 of priority 10 and mx3 of priority 20, with at most 2 attempts and the
  shuffle on, whatever the random draws, only exchangers of priority 10 are tried: mx3 is
  never first (nor second).
\<close>

theorem attempted_is_sorted_prefix:
  "(domainHasMx mxResult \<and> mxRecords mxResult = Some recs \<and> recs \<noteq> [] \<longrightarrow>
      length (attempted (validateSmtp cfg (Inr mxResult) rnd net)) \<le> maxMxAttempts cfg
      \<and> (\<exists>perm. mset perm = mset recs
            \<and> sorted (map priority perm)
            \<and> map priority perm = map priority (sort_key priority recs)
            \<and> (\<not> randomizeSamePriority cfg \<longrightarrow> perm = sort_key priority recs)
            \<and> attempted (validateSmtp cfg (Inr mxResult) rnd net)
                = take (maxMxAttempts cfg) perm))
   \<and> (domainHasMx mxResult \<and> mxRecords mxResult = Some exampleMx
       \<and> randomizeSamePriority cfg \<and> maxMxAttempts cfg = 2 \<longrightarrow>
      attempted (validateSmtp cfg (Inr mxResult) rnd net) \<noteq> []
      \<and> exchange (hd (attempted (validateSmtp cfg (Inr mxResult) rnd net))) \<noteq> ''mx3''
      \<and> (\<forall>mx\<in>set (attempted (validateSmtp cfg (Inr mxResult) rnd net)).
            priority mx = 10 \<and> exchange mx \<noteq> ''mx3''))"
proof (intro conjI impI)
  assume a: "domainHasMx mxResult \<and> mxRecords mxResult = Some recs \<and> recs \<noteq> []"
  then have att: "attempted (validateSmtp cfg (Inr mxResult) rnd net) = selectMx cfg rnd recs"
    by (intro validateSmtp_with_records(1)) simp_all
  from selectMx_prefix[of recs cfg rnd] obtain perm where p: "mset perm = mset recs"
    "map priority perm = map priority (sort_key priority recs)" "sorted (map priority perm)"
    "\<not> randomizeSamePriority cfg \<longrightarrow> perm = sort_key priority recs"
    "selectMx cfg rnd recs = take (maxMxAttempts cfg) perm"
    by blast
  from att p(5) show "length (attempted (validateSmtp cfg (Inr mxResult) rnd net))
      \<le> maxMxAttempts cfg"
    by simp
  from att p show "\<exists>perm. mset perm = mset recs
            \<and> sorted (map priority perm)
            \<and> map priority perm = map priority (sort_key priority recs)
            \<and> (\<not> randomizeSamePriority cfg \<longrightarrow> perm = sort_key priority recs)
            \<and> attempted (validateSmtp cfg (Inr mxResult) rnd net)
                = take (maxMxAttempts cfg) perm"
    by (intro exI[of _ perm]) simp
next
  assume a: "domainHasMx mxResult \<and> mxRecords mxResult = Some exampleMx
       \<and> randomizeSamePriority cfg \<and> maxMxAttempts cfg = 2"
  have ne: "exampleMx \<noteq> []" by (simp add: exampleMx_def)
  from a ne have att: "attempted (validateSmtp cfg (Inr mxResult) rnd net)
      = selectMx cfg rnd exampleMx"
    by (intro validateSmtp_with_records(1)) simp_all
  from selectMx_prefix[of exampleMx cfg rnd] obtain perm where p: "mset perm = mset exampleMx"
    "map priority perm = map priority (sort_key priority exampleMx)"
    "selectMx cfg rnd exampleMx = take (maxMxAttempts cfg) perm"
    by blast
  from p(3) a att have t: "attempted (validateSmtp cfg (Inr mxResult) rnd net) = take 2 perm"
    by simp
  from exampleMx_first[OF p(1,2)] t
  show all: "\<forall>mx\<in>set (attempted (validateSmtp cfg (Inr mxResult) rnd net)).
            priority mx = 10 \<and> exchange mx \<noteq> ''mx3''"
    and ne': "attempted (validateSmtp cfg (Inr mxResult) rnd net) \<noteq> []"
    by simp_all
  from all ne' show "exchange (hd (attempted (validateSmtp cfg (Inr mxResult) rnd net)))
      \<noteq> ''mx3''"
    by (meson hd_in_set)
qed

text \<open>The theorem on the example under the default configuration.\<close>

theorem attempted_is_sorted_prefix_witness:
  "(let mxResult = \<lparr>domainHasMx = True, mxRecords = Some exampleMx\<rparr>;
        tried = attempted (validateSmtp defaultSmtpConfig (Inr mxResult) (\<lambda>k. 0) acceptsEverything)
    in domainHasMx mxResult \<and> mxRecords mxResult = Some exampleMx \<and> exampleMx \<noteq> []
       \<and> randomizeSamePriority defaultSmtpConfig \<and> maxMxAttempts defaultSmtpConfig = 2
       \<and> length tried \<le> 2 \<and> tried \<noteq> [] \<and> exchange (hd tried) \<noteq> ''mx3'')"
proof -
  let ?mxResult = "\<lparr>domainHasMx = True, mxRecords = Some exampleMx\<rparr>"
  have pre: "domainHasMx ?mxResult \<and> mxRecords ?mxResult = Some exampleMx \<and> exampleMx \<noteq> []"
    by (simp add: exampleMx_def)
  have cfg: "randomizeSamePriority defaultSmtpConfig \<and> maxMxAttempts defaultSmtpConfig = 2"
    by (simp add: defaultSmtpConfig_def)
  from attempted_is_sorted_prefix[of ?mxResult exampleMx defaultSmtpConfig "\<lambda>k. 0"
         acceptsEverything] pre cfg
  show ?thesis
    unfolding Let_def by simp
qed

section \<open>TLS required\<close>

lemma ehlo_530:
  assumes "settled hs = None" "line \<noteq> []" "\<not> isContinuation line" "step hs = 1"
    "extractSmtpCode line = 530"
  shows "tlsRequiredVerdict (handleLine cfg email hs line)
     \<and> written (handleLine cfg email hs line) = written hs @ [''QUIT'' @ CRLF]"
  using assms
  by (simp add: handleLine_def Let_def tlsRequiredVerdict_def resolve_def socketWrite_def
      tlsRequired_def)

lemma mail_530:
  assumes "settled hs = None" "line \<noteq> []" "\<not> isContinuation line" "step hs = 3"
    "extractSmtpCode line = 530"
  shows "tlsRequiredVerdict (handleLine cfg email hs line)
     \<and> written (handleLine cfg email hs line) = written hs @ [''QUIT'' @ CRLF]"
  using assms
  by (simp add: handleLine_def Let_def tlsRequiredVerdict_def resolve_def socketWrite_def
      tlsRequired_def)

lemma ehlo_250_tls_required:
  assumes "settled hs = None" "line \<noteq> []" "\<not> isContinuation line" "step hs = 1"
    "extractSmtpCode line = 250" "requireTls cfg"
  shows "settled (handleLine cfg email hs line)
           = Some (Resolved (tlsRequired
               (if ''STARTTLS'' \<in> set (capabilitiesAfter hs line)
                then ''TLS required but STARTTLS upgrade not yet implemented''
                else ''TLS required but server lacks STARTTLS capability. Capabilities: ''
                     @ join '', '' (capabilitiesAfter hs line))))
     \<and> tlsRequiredVerdict (handleLine cfg email hs line)
     \<and> written (handleLine cfg email hs line) = written hs @ [''QUIT'' @ CRLF]"
  using assms
  by (simp add: handleLine_def Let_def tlsRequiredVerdict_def resolve_def socketWrite_def
      tlsRequired_def)

lemma ehlo_rejected:
  assumes "settled hs = None" "line \<noteq> []" "\<not> isContinuation line" "step hs = 1"
    "extractSmtpCode line \<noteq> 250" "extractSmtpCode line \<noteq> 530"
  shows "settled (handleLine cfg email hs line)
           = Some (Rejected (newError (''EHLO rejected: '' @ line)))
     \<and> written (handleLine cfg email hs line) = written hs"
  using assms
  by (simp add: handleLine_def Let_def reject_def)

lemma ehlo_rejected_mapped:
  "smtpStatus (mapErrorToResult (newError (''EHLO rejected: '' @ line))) = Unknown
   \<and> smtp_tls_required \<notin> set (reasonCodes (mapErrorToResult
         (newError (''EHLO rejected: '' @ line))))"
proof -
  have "\<not> isDigit CHR ''E''"
    by (simp add: isDigit_def)
  then have c: "extractSmtpCode (message (newError (''EHLO rejected: '' @ line))) = 0"
    by (simp add: newError_def)
  from mapError_status[OF c] mapError_phase[OF c] show ?thesis
    by simp
qed

lemma handleLine_beforeMail:
  assumes "requireTls cfg" "beforeMail hs"
  shows "beforeMail (handleLine cfg email hs line)"
proof -
  from assms(2) have s: "step hs = 0 \<or> step hs = 1" and w: "\<not> sentMailFrom hs"
    by (auto simp: beforeMail_def)
  from s show ?thesis
  proof
    assume "step hs = 0"
    with w show ?thesis
      by (simp add: handleLine_def Let_def beforeMail_def sentMailFrom_def reject_def
          socketWrite_def setPhaseTimeout_def)
  next
    assume "step hs = 1"
    with w assms(1) show ?thesis
      by (simp add: handleLine_def Let_def beforeMail_def sentMailFrom_def reject_def
          resolve_def socketWrite_def)
  qed
qed

lemma handleLines_beforeMail:
  "requireTls cfg \<Longrightarrow> beforeMail hs \<Longrightarrow> beforeMail (handleLines cfg email hs ls)"
  by (induction ls arbitrary: hs) (simp_all add: Let_def handleLine_beforeMail)

lemma handleEvent_beforeMail:
  assumes "requireTls cfg" "beforeMail hs"
  shows "beforeMail (handleEvent cfg email hs event)"
proof (cases "settled hs \<noteq> None")
  case True
  with assms(2) show ?thesis by (simp add: handleEvent_def)
next
  case False
  show ?thesis
  proof (cases event)
    case (Data chunk)
    from assms(2) have "beforeMail (hs\<lparr>buffer := buffer hs @ chunk\<rparr>)"
      "beforeMail (hs\<lparr>buffer := last (splitCRLF [] (buffer hs @ chunk))\<rparr>)"
      by (simp_all add: beforeMail_def sentMailFrom_def)
    with Data False assms(1) show ?thesis
      by (simp add: handleEvent_def onData_def Let_def handleLines_beforeMail)
  next
    case PhaseTimerFires
    with False assms(2) show ?thesis
      by (simp add: handleEvent_def beforeMail_def sentMailFrom_def reject_def
          split: option.splits)
  next
    case (SocketError error)
    with False assms(2) show ?thesis
      by (simp add: handleEvent_def beforeMail_def sentMailFrom_def reject_def)
  next
    case SocketTimeout
    with False assms(2) show ?thesis
      by (simp add: handleEvent_def beforeMail_def sentMailFrom_def reject_def)
  next
    case SocketEnd
    with False assms(2) show ?thesis
      by (simp add: handleEvent_def beforeMail_def sentMailFrom_def reject_def)
  qed
qed

lemma performSmtpHandshake_beforeMail:
  "requireTls cfg \<Longrightarrow> beforeMail hs \<Longrightarrow>
   beforeMail (performSmtpHandshake cfg email hs events)"
  by (induction events arbitrary: hs) (simp_all add: handleEvent_beforeMail)

lemma settled_is_final:
  "settled hs \<noteq> None \<Longrightarrow> performSmtpHandshake cfg email hs events = hs"
  by (induction events arbitrary: hs) (simp_all add: handleEvent_def)

text \<open>
  Claim C7, as amended. Let a complete reply line (not empty, not a continuation line)
  arrive while the promise is unsettled. If it is the reply to EHLO or to MAIL FROM and its
  code is 530, or if it is the reply to EHLO with code 250 while the configuration
  requires TLS, then the engine resolves with verdict \<open>unknown\<close> and the single reason
  \<open>smtp_tls_required\<close>, and all it sends is QUIT. In the second case this is so whether
  or not the capability tokens gathered from the reply, this line's included, contain
  STARTTLS, because the upgrade is not implemented; only the text of the result differs.
  A reply to EHLO with any other code than 250 or 530 rejects the handshake with the error
  \<open>EHLO rejected\<close> and sends nothing; \<open>mapErrorToResult\<close>, which the caller applies to
  the error, gives \<open>unknown\<close> with reasons among which \<open>smtp_tls_required\<close> is not.
  Whenever the configuration requires TLS, whatever the server sends and whatever happens
  to the socket, MAIL FROM is never transmitted on the connection. A TLS-required verdict
  is final: later events change nothing.
\<close>

theorem tls_required_engine:
  "(settled hs = None \<and> line \<noteq> [] \<and> \<not> isContinuation line \<longrightarrow>
      (step hs = 1 \<and> extractSmtpCode line = 530 \<longrightarrow>
         tlsRequiredVerdict (handleLine cfg email hs line)
         \<and> written (handleLine cfg email hs line) = written hs @ [''QUIT'' @ CRLF])
      \<and> (step hs = 3 \<and> extractSmtpCode line = 530 \<longrightarrow>
         tlsRequiredVerdict (handleLine cfg email hs line)
         \<and> written (handleLine cfg email hs line) = written hs @ [''QUIT'' @ CRLF])
      \<and> (step hs = 1 \<and> extractSmtpCode line = 250 \<and> requireTls cfg \<longrightarrow>
         settled (handleLine cfg email hs line)
           = Some (Resolved (tlsRequired
               (if ''STARTTLS'' \<in> set (capabilitiesAfter hs line)
                then ''TLS required but STARTTLS upgrade not yet implemented''
                else ''TLS required but server lacks STARTTLS capability. Capabilities: ''
                     @ join '', '' (capabilitiesAfter hs line))))
         \<and> tlsRequiredVerdict (handleLine cfg email hs line)
         \<and> written (handleLine cfg email hs line) = written hs @ [''QUIT'' @ CRLF])
      \<and> (step hs = 1 \<and> extractSmtpCode line \<noteq> 250 \<and> extractSmtpCode line \<noteq> 530 \<longrightarrow>
         settled (handleLine cfg email hs line)
           = Some (Rejected (newError (''EHLO rejected: '' @ line)))
         \<and> written (handleLine cfg email hs line) = written hs
         \<and> smtpStatus (mapErrorToResult (newError (''EHLO rejected: '' @ line))) = Unknown
         \<and> smtp_tls_required \<notin> set (reasonCodes (mapErrorToResult
               (newError (''EHLO rejected: '' @ line))))))
   \<and> (requireTls cfg \<longrightarrow>
        \<not> sentMailFrom (performSmtpHandshake cfg email (connectHandshake cfg) events))
   \<and> (tlsRequiredVerdict hs \<longrightarrow> performSmtpHandshake cfg email hs events = hs)"
proof (intro conjI impI)
  assume "requireTls cfg"
  moreover have "beforeMail (connectHandshake cfg)"
    by (simp add: beforeMail_def connectHandshake_def sentMailFrom_def)
  ultimately have "beforeMail (performSmtpHandshake cfg email (connectHandshake cfg) events)"
    by (rule performSmtpHandshake_beforeMail)
  then show "\<not> sentMailFrom (performSmtpHandshake cfg email (connectHandshake cfg) events)"
    by (simp add: beforeMail_def)
next
  assume "tlsRequiredVerdict hs"
  then have "settled hs \<noteq> None"
    by (auto simp: tlsRequiredVerdict_def)
  then show "performSmtpHandshake cfg email hs events = hs"
    by (rule settled_is_final)
qed (insert ehlo_530[of hs line cfg email] mail_530[of hs line cfg email]
      ehlo_250_tls_required[of hs line cfg email] ehlo_rejected[of hs line cfg email]
      ehlo_rejected_mapped[of line], blast+)

text \<open>
  The theorem under the default configuration with TLS required. On a server without
  STARTTLS whose EHLO reply has three lines, the last line of the reply brings the
  TLS-required verdict, and MAIL FROM is not sent. On a server whose EHLO reply is the
  single line \<open>250 STARTTLS\<close>, the verdict is the same. On a server that answers EHLO with
  421, the engine rejects, and the error is mapped to \<open>unknown\<close> with the reason
  \<open>smtp_timeout\<close>.
\<close>

theorem tls_required_engine_witness:
  "(let email = ''user@example.com'';
        hs = performSmtpHandshake tlsRequiredConfig email (connectHandshake tlsRequiredConfig)
               [Data (''220 mail.example.com ESMTP'' @ CRLF),
                Data (''250-mail.example.com'' @ CRLF @ ''250-PIPELINING'' @ CRLF)];
        greeted = performSmtpHandshake tlsRequiredConfig email
               (connectHandshake tlsRequiredConfig) [Data (''220 mail.example.com ESMTP'' @ CRLF)];
        line = ''250 8BITMIME'';
        busy = ''421 4.4.2 mail.example.com Error: timeout exceeded''
    in settled hs = None \<and> line \<noteq> [] \<and> \<not> isContinuation line \<and> step hs = 1
       \<and> extractSmtpCode line = 250 \<and> requireTls tlsRequiredConfig
       \<and> tlsRequiredVerdict (handleLine tlsRequiredConfig email hs line)
       \<and> written (handleLine tlsRequiredConfig email hs line) = written hs @ [''QUIT'' @ CRLF]
       \<and> settled greeted = None \<and> step greeted = 1
       \<and> extractSmtpCode ''250 STARTTLS'' = 250
       \<and> ''STARTTLS'' \<in> set (capabilitiesAfter greeted ''250 STARTTLS'')
       \<and> tlsRequiredVerdict (handleLine tlsRequiredConfig email greeted ''250 STARTTLS'')
       \<and> extractSmtpCode busy = 421
       \<and> settled (handleLine tlsRequiredConfig email greeted busy)
           = Some (Rejected (newError (''EHLO rejected: '' @ busy)))
       \<and> reasonCodes (mapErrorToResult (newError (''EHLO rejected: '' @ busy))) = [smtp_timeout]
       \<and> smtp_tls_required \<notin> set (reasonCodes (mapErrorToResult
             (newError (''EHLO rejected: '' @ busy))))
       \<and> \<not> sentMailFrom (performSmtpHandshake tlsRequiredConfig email
                            (connectHandshake tlsRequiredConfig) plainServer))"
proof -
  let ?email = "''user@example.com''"
  let ?hs = "performSmtpHandshake tlsRequiredConfig ?email (connectHandshake tlsRequiredConfig)
               [Data (''220 mail.example.com ESMTP'' @ CRLF),
                Data (''250-mail.example.com'' @ CRLF @ ''250-PIPELINING'' @ CRLF)]"
  let ?greeted = "performSmtpHandshake tlsRequiredConfig ?email
               (connectHandshake tlsRequiredConfig) [Data (''220 mail.example.com ESMTP'' @ CRLF)]"
  let ?line = "''250 8BITMIME''"
  let ?tls = "''250 STARTTLS''"
  let ?busy = "''421 4.4.2 mail.example.com Error: timeout exceeded''"
  have h: "settled ?hs = None" "\<not> isContinuation ?line" "step ?hs = 1"
    "extractSmtpCode ?line = 250" "requireTls tlsRequiredConfig"
    by code_simp+
  have g: "settled ?greeted = None" "step ?greeted = 1" "\<not> isContinuation ?tls"
    "extractSmtpCode ?tls = 250" "''STARTTLS'' \<in> set (capabilitiesAfter ?greeted ?tls)"
    "\<not> isContinuation ?busy" "extractSmtpCode ?busy = 421"
    "reasonCodes (mapErrorToResult (newError (''EHLO rejected: '' @ ?busy))) = [smtp_timeout]"
    by code_simp+
  have pre: "settled ?hs = None \<and> ?line \<noteq> [] \<and> \<not> isContinuation ?line"
    "settled ?greeted = None \<and> ?tls \<noteq> [] \<and> \<not> isContinuation ?tls"
    "settled ?greeted = None \<and> ?busy \<noteq> [] \<and> \<not> isContinuation ?busy"
    using h g by simp_all
  from tls_required_engine[of ?hs ?line tlsRequiredConfig ?email plainServer] pre(1) h
  have a: "tlsRequiredVerdict (handleLine tlsRequiredConfig ?email ?hs ?line)"
    "written (handleLine tlsRequiredConfig ?email ?hs ?line) = written ?hs @ [''QUIT'' @ CRLF]"
    "\<not> sentMailFrom (performSmtpHandshake tlsRequiredConfig ?email
                            (connectHandshake tlsRequiredConfig) plainServer)"
    by blast+
  from tls_required_engine[of ?greeted ?tls tlsRequiredConfig ?email plainServer] pre(2) g h(5)
  have b: "tlsRequiredVerdict (handleLine tlsRequiredConfig ?email ?greeted ?tls)"
    by blast
  have "extractSmtpCode ?busy \<noteq> 250" "extractSmtpCode ?busy \<noteq> 530"
    using g(7) by simp_all
  with tls_required_engine[of ?greeted ?busy tlsRequiredConfig ?email plainServer] pre(3) g(2)
  have c: "settled (handleLine tlsRequiredConfig ?email ?greeted ?busy)
           = Some (Rejected (newError (''EHLO rejected: '' @ ?busy)))"
    "smtp_tls_required \<notin> set (reasonCodes (mapErrorToResult
             (newError (''EHLO rejected: '' @ ?busy))))"
    by blast+
  show ?thesis
    unfolding Let_def
    by (intro conjI) (rule h g a b c | simp)+
qed

text \<open>
  Claim C7 as first stated covers every EHLO exchange under a configuration that requires
  TLS in which no STARTTLS token was seen. When the server answers EHLO with 502, the
  engine rejects instead, and the caller maps the error to \<open>unknown\<close> with the reason
  \<open>smtp_connection_failed\<close>, not \<open>smtp_tls_required\<close>.
\<close>

theorem ehlo_refused_counterexample:
  "requireTls tlsRequiredConfig
   \<and> ''STARTTLS'' \<notin> set (ehloCapabilities (performSmtpHandshake tlsRequiredConfig
         ''user@example.com'' (connectHandshake tlsRequiredConfig) ehloRefusingServer))
   \<and> settled (performSmtpHandshake tlsRequiredConfig ''user@example.com''
         (connectHandshake tlsRequiredConfig) ehloRefusingServer)
       = Some (Rejected (newError ''EHLO rejected: 502 5.5.2 Error: command not recognized''))
   \<and> reasonCodes (mapErrorToResult
         (newError ''EHLO rejected: 502 5.5.2 Error: command not recognized''))
       = [smtp_connection_failed]"
  by code_simp

section \<open>The distributed throttle\<close>








lemma redisExpire_update:
  "live T expiry \<Longrightarrow>
   redisExpire (r\<lparr>numbers := (numbers r)(k \<mapsto> (v, expiry))\<rparr>) T k ttl
     = r\<lparr>numbers := (numbers r)(k \<mapsto> (v, Some (T + 1000 * ttl)))\<rparr>"
  by (simp add: redisExpire_def)

















text \<open>Counters in a run that is over before any key it wrote expires.\<close>

lemma getNumber_raw: "outlives end r k \<Longrightarrow> T < end \<Longrightarrow> getNumber r T k = rawNumber r k"
  by (auto simp: outlives_def getNumber_def rawNumber_def live_def split: option.splits)

lemma expiryAt_outlives:
  "outlives end r k \<Longrightarrow> (case expiryAt r T k of None \<Rightarrow> True | Some e \<Rightarrow> end \<le> e)"
  by (auto simp: outlives_def expiryAt_def split: option.splits)

lemma rawNumber_update:
  "rawNumber (r\<lparr>numbers := (numbers r)(k \<mapsto> (v, expiry))\<rparr>) k'
     = (if k' = k then v else rawNumber r k')"
  by (simp add: rawNumber_def)

lemma outlives_update:
  "outlives end (r\<lparr>numbers := (numbers r)(k \<mapsto> (v, expiry))\<rparr>) k'
     = (if k' = k then (case expiry of None \<Rightarrow> True | Some e \<Rightarrow> end \<le> e)
        else outlives end r k')"
  by (simp add: outlives_def)

















end
